theory Spec2Isabelle
  imports Complex_Main
begin

section \<open>Strings\<close>

text \<open>
  Python strings are sequences of code points. The model reads a \<^typ>\<open>char\<close> as a code
  point below 256, so a \<^typ>\<open>string\<close> is a Python string over that range. The character
  classes below are the restrictions of Python's classes to it: \<open>str.isspace\<close> and the
  regular expression class \<open>\s\<close> (the same set), the class \<open>\w\<close>, and \<open>str.lower\<close>.
\<close>

definition code :: "char \<Rightarrow> nat" where
  "code c = of_char c"

definition is_space :: "char \<Rightarrow> bool" where
  "is_space c = ((9 \<le> code c \<and> code c \<le> 13) \<or> (28 \<le> code c \<and> code c \<le> 32)
     \<or> code c = 133 \<or> code c = 160)"

definition is_upper_az :: "char \<Rightarrow> bool" where
  "is_upper_az c = (65 \<le> code c \<and> code c \<le> 90)"

definition is_lower_az :: "char \<Rightarrow> bool" where
  "is_lower_az c = (97 \<le> code c \<and> code c \<le> 122)"

definition is_word :: "char \<Rightarrow> bool" where
  "is_word c = (is_upper_az c \<or> is_lower_az c \<or> (48 \<le> code c \<and> code c \<le> 57) \<or> code c = 95
     \<or> code c \<in> {170, 178, 179, 181, 185, 186, 188, 189, 190}
     \<or> (192 \<le> code c \<and> code c \<noteq> 215 \<and> code c \<noteq> 247))"

definition lower_char :: "char \<Rightarrow> char" where
  "lower_char c = (if is_upper_az c \<or> (192 \<le> code c \<and> code c \<le> 222 \<and> code c \<noteq> 215)
     then char_of (code c + 32) else c)"

definition lower :: "string \<Rightarrow> string" where
  "lower s = map lower_char s"

text \<open>\<open>s.strip()\<close>: whitespace removed at both ends.\<close>

definition strip :: "string \<Rightarrow> string" where
  "strip s = rev (dropWhile is_space (rev (dropWhile is_space s)))"

text \<open>\<open>sub in s\<close>: \<open>sub\<close> occurs in \<open>s\<close> as a contiguous substring.\<close>

fun starts_with :: "string \<Rightarrow> string \<Rightarrow> bool" where
  "starts_with [] s = True"
| "starts_with (p # ps) [] = False"
| "starts_with (p # ps) (c # cs) = (p = c \<and> starts_with ps cs)"

fun str_in :: "string \<Rightarrow> string \<Rightarrow> bool" where
  "str_in sub [] = (sub = [])"
| "str_in sub (c # cs) = (starts_with sub (c # cs) \<or> str_in sub cs)"

text \<open>\<open>sep.join(parts)\<close>.\<close>

fun join :: "string \<Rightarrow> string list \<Rightarrow> string" where
  "join sep [] = []"
| "join sep [p] = p"
| "join sep (p # q # ps) = p @ sep @ join sep (q # ps)"

text \<open>\<open>s.split(d)\<close> for a one-character separator: never an empty list.\<close>

definition split_on :: "char \<Rightarrow> string \<Rightarrow> string list" where
  "split_on d s = foldr (\<lambda>c acc. if c = d then [] # acc else (c # hd acc) # tl acc) s [[]]"

text \<open>Decimal rendering of a count, as an f-string formats an \<open>int\<close>.\<close>

definition digit_char :: "nat \<Rightarrow> char" where
  "digit_char d = char_of (48 + d)"

fun str_of_nat :: "nat \<Rightarrow> string" where
  "str_of_nat n = (if n < 10 then [digit_char n] else str_of_nat (n div 10) @ [digit_char (n mod 10)])"

section \<open>The two regular expressions\<close>

text \<open>
  The source uses two patterns, both sequences of character classes with \<open>*\<close>, \<open>+\<close> or
  \<open>{4,}\<close>, the word boundary \<open>\b\<close> and the end anchor \<open>$\<close>. A pattern is a list of items;
  \<open>c+\<close> is \<open>One c, Star c\<close> and \<open>c{4,}\<close> is four \<open>One c\<close> and a \<open>Star c\<close>.
  The matcher is the backtracking one of \<open>re\<close>: a star takes as many characters as it
  can and gives them back one at a time while the rest of the pattern fails. It returns
  the text left after the match. \<open>prev\<close> is the character before the position, for \<open>\b\<close>.
\<close>

datatype item = One "char \<Rightarrow> bool" | Star "char \<Rightarrow> bool" | Bnd | Eos

definition at_boundary :: "char option \<Rightarrow> string \<Rightarrow> bool" where
  "at_boundary prev s =
     ((case prev of None \<Rightarrow> False | Some c \<Rightarrow> is_word c)
        \<noteq> (case s of [] \<Rightarrow> False | c # _ \<Rightarrow> is_word c))"

text \<open>\<open>$\<close> without \<open>re.MULTILINE\<close>: at the end, or before a newline that ends the string.\<close>

definition at_end :: "string \<Rightarrow> bool" where
  "at_end s = (s = [] \<or> s = [CHR 0x0A])"

fun rmatch :: "item list \<Rightarrow> char option \<Rightarrow> string \<Rightarrow> string option" where
  "rmatch [] prev s = Some s"
| "rmatch (One p # ps) prev [] = None"
| "rmatch (One p # ps) prev (c # cs) = (if p c then rmatch ps (Some c) cs else None)"
| "rmatch (Star p # ps) prev [] = rmatch ps prev []"
| "rmatch (Star p # ps) prev (c # cs) =
     (if p c
      then (case rmatch (Star p # ps) (Some c) cs of
              Some r \<Rightarrow> Some r
            | None \<Rightarrow> rmatch ps prev (c # cs))
      else rmatch ps prev (c # cs))"
| "rmatch (Bnd # ps) prev s = (if at_boundary prev s then rmatch ps prev s else None)"
| "rmatch (Eos # ps) prev s = (if at_end s then rmatch ps prev s else None)"

text \<open>\<open>a|b\<close>: the first alternative that matches.\<close>

fun rmatch_alt :: "item list list \<Rightarrow> char option \<Rightarrow> string \<Rightarrow> string option" where
  "rmatch_alt [] prev s = None"
| "rmatch_alt (a # as) prev s =
     (case rmatch a prev s of Some r \<Rightarrow> Some r | None \<Rightarrow> rmatch_alt as prev s)"

text \<open>
  \<open>re.sub(pattern, '', s)\<close>: the text outside the leftmost non-overlapping matches.
  After a match that took characters the scan goes on behind it; where nothing matches,
  or only the empty string does, the character is kept and the scan moves one on.
\<close>

function re_sub :: "item list list \<Rightarrow> char option \<Rightarrow> string \<Rightarrow> string" where
  "re_sub alts prev [] = []"
| "re_sub alts prev (c # cs) =
     (case rmatch_alt alts prev (c # cs) of
        Some r \<Rightarrow>
          (if length r < length (c # cs)
           then re_sub alts (Some (last (take (length (c # cs) - length r) (c # cs)))) r
           else c # re_sub alts (Some c) cs)
      | None \<Rightarrow> c # re_sub alts (Some c) cs)"
  by pat_completeness auto
termination
  by (relation "measure (\<lambda>(alts, prev, s). length s)") auto

text \<open>
  \<open>re.findall(pattern, s)\<close> for a pattern without groups: the matched texts, left to
  right. An empty match is reported as the empty string, also at the end of the text.
\<close>

function findall :: "item list list \<Rightarrow> char option \<Rightarrow> string \<Rightarrow> string list" where
  "findall alts prev [] = (case rmatch_alt alts prev [] of Some r \<Rightarrow> [[]] | None \<Rightarrow> [])"
| "findall alts prev (c # cs) =
     (case rmatch_alt alts prev (c # cs) of
        Some r \<Rightarrow>
          (if length r < length (c # cs)
           then take (length (c # cs) - length r) (c # cs)
                  # findall alts (Some (last (take (length (c # cs) - length r) (c # cs)))) r
           else [] # findall alts (Some c) cs)
      | None \<Rightarrow> findall alts (Some c) cs)"
  by pat_completeness auto
termination
  by (relation "measure (\<lambda>(alts, prev, s). length s)") auto

definition is_sep :: "char \<Rightarrow> bool" where
  "is_sep c = (c = CHR ''-'' \<or> c = CHR ''|'')"

definition is_word_or_space :: "char \<Rightarrow> bool" where
  "is_word_or_space c = (is_word c \<or> is_space c)"

text \<open>\<^verbatim>\<open>\s*[-|]\s*[\w\s]+$\<close>\<close>

definition suffix_pattern :: "item list list" where
  "suffix_pattern =
     [[Star is_space, One is_sep, Star is_space, One is_word_or_space, Star is_word_or_space, Eos]]"

text \<open>
  The suffix in the spec's words: optional whitespace, a separator, and then one or more
  word or whitespace characters up to the end of the text.
\<close>

definition trailing_suffix :: "string \<Rightarrow> bool" where
  "trailing_suffix s =
     (case dropWhile is_space s of
        [] \<Rightarrow> False
      | c # r \<Rightarrow> is_sep c \<and> r \<noteq> [] \<and> list_all is_word_or_space r)"

text \<open>\<^verbatim>\<open>\b[A-Z][a-z]+\b|\b[a-z]{4,}\b\<close>\<close>

definition word_pattern :: "item list list" where
  "word_pattern =
     [[Bnd, One is_upper_az, One is_lower_az, Star is_lower_az, Bnd],
      [Bnd, One is_lower_az, One is_lower_az, One is_lower_az, One is_lower_az,
       Star is_lower_az, Bnd]]"

section \<open>The host of a URL\<close>

text \<open>The exceptions the code can leave with.\<close>

datatype error = AttributeError | TypeError | ValueError | RecursionError

text \<open>
  \<open>urlparse(url).netloc\<close> of the standard library (CPython 3.11), for a string:
  leading control characters and spaces are dropped, tabs and line breaks removed, a
  scheme \<open>name:\<close> is split off, and after \<open>//\<close> the host runs up to the first of
  \<open>/\<close>, \<open>?\<close>, \<open>#\<close>. A host with one of \<open>[\<close>, \<open>]\<close> but not the other raises
  \<open>ValueError\<close>. In a host with both, the text between the first \<open>[\<close> and the next
  \<open>]\<close> has to be an IPv6 address as \<open>ipaddress.ip_address\<close> reads it, or, when it
  starts with \<open>v\<close>, a future address matching \<^verbatim>\<open>\Av[a-fA-F0-9]+\..+\Z\<close>; else
  \<open>ValueError\<close>. The check of the host under NFKC normalisation never fires on code
  points below 256.
\<close>

definition is_dec_digit :: "char \<Rightarrow> bool" where
  "is_dec_digit c = (48 \<le> code c \<and> code c \<le> 57)"

definition is_hex_digit :: "char \<Rightarrow> bool" where
  "is_hex_digit c = (is_dec_digit c \<or> (65 \<le> code c \<and> code c \<le> 70) \<or> (97 \<le> code c \<and> code c \<le> 102))"

text \<open>\<open>int(s, 10)\<close> on decimal digits, and \<open>'%x' % n\<close>.\<close>

definition dec_value :: "string \<Rightarrow> nat" where
  "dec_value s = foldl (\<lambda>acc c. 10 * acc + (code c - 48)) 0 s"

definition hex_digit_char :: "nat \<Rightarrow> char" where
  "hex_digit_char d = (if d < 10 then char_of (48 + d) else char_of (87 + d))"

fun hex_of_nat :: "nat \<Rightarrow> string" where
  "hex_of_nat n =
     (if n < 16 then [hex_digit_char n] else hex_of_nat (n div 16) @ [hex_digit_char (n mod 16)])"

text \<open>\<open>IPv4Address._parse_octet\<close> and \<open>IPv4Address(s)\<close>: whether they return.\<close>

definition octet_ok :: "string \<Rightarrow> bool" where
  "octet_ok s =
     (s \<noteq> [] \<and> list_all is_dec_digit s \<and> length s \<le> 3
      \<and> (s = ''0'' \<or> hd s \<noteq> CHR ''0'') \<and> dec_value s \<le> 255)"

definition ipv4_ok :: "string \<Rightarrow> bool" where
  "ipv4_ok s =
     (CHR ''/'' \<notin> set s \<and> s \<noteq> []
      \<and> length (split_on (CHR ''.'') s) = 4 \<and> list_all octet_ok (split_on (CHR ''.'') s))"

text \<open>
  \<open>IPv6Address._parse_hextet\<close>, and the part of \<open>IPv6Address._ip_int_from_string\<close>
  after an IPv4 suffix has been replaced by its two hextets: at most nine parts, at
  most one empty part strictly inside (the \<open>::\<close>), an empty first or last part only
  next to it, room for at least one skipped hextet, and every part that is read a
  hextet.
\<close>

definition hextet_ok :: "string \<Rightarrow> bool" where
  "hextet_ok s = (list_all is_hex_digit s \<and> length s \<le> 4 \<and> s \<noteq> [])"

definition ipv6_parts_ok :: "string list \<Rightarrow> bool" where
  "ipv6_parts_ok parts =
     (length parts \<le> 9 \<and>
      (case filter (\<lambda>i. parts ! i = []) [1 ..< length parts - 1] of
         [] \<Rightarrow>
           length parts = 8 \<and> hd parts \<noteq> [] \<and> last parts \<noteq> [] \<and> list_all hextet_ok parts
       | [skip_index] \<Rightarrow>
           (let parts_hi = (if hd parts = [] then skip_index - 1 else skip_index);
                parts_lo = (if last parts = [] then length parts - skip_index - 1 - 1
                            else length parts - skip_index - 1)
            in (if hd parts = [] then parts_hi = 0 else True)
               \<and> (if last parts = [] then parts_lo = 0 else True)
               \<and> parts_hi + parts_lo < 8
               \<and> list_all hextet_ok (take parts_hi parts)
               \<and> list_all hextet_ok (drop (length parts - parts_lo) parts))
       | _ \<Rightarrow> False))"

text \<open>\<open>IPv6Address(s)\<close>, with the scope id after \<open>%\<close> and the IPv4 suffix.\<close>

definition ipv4_hextets :: "string \<Rightarrow> string list" where
  "ipv4_hextets s =
     (let octets = map dec_value (split_on (CHR ''.'') s) in
      [hex_of_nat (octets ! 0 * 256 + octets ! 1), hex_of_nat (octets ! 2 * 256 + octets ! 3)])"

definition ipv6_ok :: "string \<Rightarrow> bool" where
  "ipv6_ok s =
     (let addr = takeWhile (\<lambda>c. c \<noteq> CHR ''%'') s;
          scope_id = drop 1 (dropWhile (\<lambda>c. c \<noteq> CHR ''%'') s);
          parts = split_on (CHR '':'') addr
      in CHR ''/'' \<notin> set s
         \<and> (if CHR ''%'' \<in> set s then scope_id \<noteq> [] \<and> CHR ''%'' \<notin> set scope_id else True)
         \<and> addr \<noteq> []
         \<and> 3 \<le> length parts
         \<and> (if CHR ''.'' \<in> set (last parts)
             then ipv4_ok (last parts) \<and> ipv6_parts_ok (butlast parts @ ipv4_hextets (last parts))
             else ipv6_parts_ok parts))"

text \<open>\<open>_check_bracketed_host\<close>: whether it returns.\<close>

definition ipvfuture_ok :: "string \<Rightarrow> bool" where
  "ipvfuture_ok s =
     (case s of
        [] \<Rightarrow> False
      | v # rest \<Rightarrow>
          v = CHR ''v'' \<and> takeWhile is_hex_digit rest \<noteq> []
          \<and> (case dropWhile is_hex_digit rest of
                [] \<Rightarrow> False
              | dot # tail \<Rightarrow> dot = CHR ''.'' \<and> tail \<noteq> [] \<and> CHR 0x0A \<notin> set tail))"

definition bracketed_host_ok :: "string \<Rightarrow> bool" where
  "bracketed_host_ok hostname =
     (if starts_with ''v'' hostname then ipvfuture_ok hostname
      else if ipv4_ok hostname then False
      else ipv6_ok hostname)"

definition is_scheme_char :: "char \<Rightarrow> bool" where
  "is_scheme_char c = (is_upper_az c \<or> is_lower_az c \<or> (48 \<le> code c \<and> code c \<le> 57)
     \<or> c = CHR ''+'' \<or> c = CHR ''-'' \<or> c = CHR ''.'')"

definition split_scheme :: "string \<Rightarrow> string" where
  "split_scheme u =
     (let pre = takeWhile (\<lambda>c. c \<noteq> CHR '':'') u in
      if CHR '':'' \<in> set u \<and> pre \<noteq> [] \<and> (is_upper_az (hd u) \<or> is_lower_az (hd u))
         \<and> list_all is_scheme_char pre
      then drop (length pre + 1) u
      else u)"

definition urlparse_netloc :: "string \<Rightarrow> error + string" where
  "urlparse_netloc u0 =
     (let u1 = dropWhile (\<lambda>c. code c \<le> 32) u0;
          u2 = filter (\<lambda>c. code c \<noteq> 9 \<and> code c \<noteq> 13 \<and> code c \<noteq> 10) u1;
          u3 = split_scheme u2
      in if take 2 u3 = ''//''
         then (let netloc = takeWhile (\<lambda>c. c \<noteq> CHR ''/'' \<and> c \<noteq> CHR ''?'' \<and> c \<noteq> CHR ''#'') (drop 2 u3) in
               if (CHR ''['' \<in> set netloc \<and> CHR '']'' \<notin> set netloc)
                  \<or> (CHR '']'' \<in> set netloc \<and> CHR ''['' \<notin> set netloc)
               then Inl ValueError
               else if CHR ''['' \<in> set netloc \<and> CHR '']'' \<in> set netloc
               then (let bracketed_host =
                           takeWhile (\<lambda>c. c \<noteq> CHR '']'')
                             (drop 1 (dropWhile (\<lambda>c. c \<noteq> CHR ''['') netloc))
                     in if bracketed_host_ok bracketed_host then Inr netloc else Inl ValueError)
               else Inr netloc)
         else Inr [])"

section \<open>Bookmarks\<close>

text \<open>
  A value as \<open>json.load\<close> returns it. An object is a Python \<open>dict\<close>: its entries in
  insertion order, looked up by key. A float is carried as its \<open>repr\<close>, which determines
  it: the code does no arithmetic on the values of the file, it only compares them with
  strings, tests them for truth and renders them.
\<close>

datatype json = JNull | JBool bool | JInt int | JFloat string | JStr string
  | JArr "json list" | JObj "(string \<times> json) list"

record Bookmark =
  name :: string
  url :: string
  date_added :: json
  folder_path :: string
  domain :: string
  clean_name :: string

text \<open>\<open>Bookmark._clean_name\<close>, on the raw name.\<close>

definition Bookmark_clean_name :: "string \<Rightarrow> string" where
  "Bookmark_clean_name nm =
     (let cleaned = re_sub suffix_pattern None nm in
      if strip cleaned \<noteq> [] then strip cleaned else nm)"

text \<open>
  The constructor with \<open>__post_init__\<close>: the host first, then the clean name. An error
  of the URL parser leaves the constructor as the exception does.
\<close>

definition Bookmark_init :: "string \<Rightarrow> string \<Rightarrow> json \<Rightarrow> string \<Rightarrow> error + Bookmark" where
  "Bookmark_init nm u d p =
     (case urlparse_netloc u of
        Inl e \<Rightarrow> Inl e
      | Inr host \<Rightarrow> Inr \<lparr>name = nm, url = u, date_added = d, folder_path = p,
                       domain = host, clean_name = Bookmark_clean_name nm\<rparr>)"

text \<open>
  A record as the constructor leaves it: its host and its clean name are the ones
  computed from its URL and its name.
\<close>

definition constructed :: "Bookmark \<Rightarrow> bool" where
  "constructed bm =
     (Bookmark_init (name bm) (url bm) (date_added bm) (folder_path bm) = Inr bm)"

text \<open>
  What \<open>json.load\<close> returns need not hold a string where the code expects one. Two
  operations of the code are defined on every value: the test for truth, which
  \<open>urlparse\<close> applies to a URL that is not a string, and \<open>str\<close>, with which an f-string
  renders a folder name.
\<close>

fun truthy :: "json \<Rightarrow> bool" where
  "truthy JNull = False"
| "truthy (JBool b) = b"
| "truthy (JInt i) = (i \<noteq> 0)"
| "truthy (JFloat r) = (r \<noteq> ''0.0'' \<and> r \<noteq> ''-0.0'')"
| "truthy (JStr s) = (s \<noteq> [])"
| "truthy (JArr xs) = (xs \<noteq> [])"
| "truthy (JObj kvs) = (kvs \<noteq> [])"

text \<open>
  \<open>repr\<close> of a string, for the code points below 256: in single quotes, or in double
  quotes when the string holds a single quote and no double quote; the quote in use and
  the backslash are escaped, tab, newline and return are written \<open>\t\<close>, \<open>\n\<close>, \<open>\r\<close>, and
  any other character that is not printable is written \<open>\xhh\<close>.
\<close>

definition is_printable :: "char \<Rightarrow> bool" where
  "is_printable c = (\<not> (code c < 32 \<or> (127 \<le> code c \<and> code c \<le> 160) \<or> code c = 173))"

definition repr_char :: "char \<Rightarrow> char \<Rightarrow> string" where
  "repr_char quote c =
     (if c = quote \<or> c = CHR 0x5C then [CHR 0x5C, c]
      else if code c = 9 then [CHR 0x5C, CHR ''t'']
      else if code c = 10 then [CHR 0x5C, CHR ''n'']
      else if code c = 13 then [CHR 0x5C, CHR ''r'']
      else if \<not> is_printable c
      then [CHR 0x5C, CHR ''x'', hex_digit_char (code c div 16), hex_digit_char (code c mod 16)]
      else [c])"

definition repr_str :: "string \<Rightarrow> string" where
  "repr_str s =
     (let quote = (if CHR 0x27 \<in> set s \<and> CHR 0x22 \<notin> set s then CHR 0x22 else CHR 0x27)
      in [quote] @ concat (map (repr_char quote) s) @ [quote])"

text \<open>\<open>repr\<close> of a value, and \<open>str\<close>, which differs from it on strings only.\<close>

fun py_repr :: "json \<Rightarrow> string" where
  "py_repr JNull = ''None''"
| "py_repr (JBool b) = (if b then ''True'' else ''False'')"
| "py_repr (JInt i) = (if i < 0 then ''-'' @ str_of_nat (nat (- i)) else str_of_nat (nat i))"
| "py_repr (JFloat r) = r"
| "py_repr (JStr s) = repr_str s"
| "py_repr (JArr xs) = ''['' @ join '', '' (map py_repr xs) @ '']''"
| "py_repr (JObj kvs) =
     ''{'' @ join '', '' (map (\<lambda>kv. repr_str (fst kv) @ '': '' @ py_repr (snd kv)) kvs) @ ''}''"

definition py_str :: "json \<Rightarrow> string" where
  "py_str v = (case v of JStr s \<Rightarrow> s | _ \<Rightarrow> py_repr v)"

text \<open>
  The constructor on the values \<open>traverse\<close> hands it. The fields are not typed at run
  time. \<open>urlparse\<close> takes a string as above; a value that is not a string it decodes as
  bytes when the value is true, and no JSON value has \<open>decode\<close>: \<open>AttributeError\<close>; a value
  that is not a string and false (\<open>None\<close>, \<open>False\<close>, \<open>0\<close>, \<open>0.0\<close>, \<open>[]\<close>, \<open>{}\<close>) it
  takes for the empty URL and answers in bytes, so the host is \<open>b''\<close>. Then the name is
  cleaned, and \<open>re.sub\<close> on a name that is not a string raises \<open>TypeError\<close>. An object
  is therefore either a record with a string URL, or one whose URL is a false value that
  is not a string: its fields are the name, that value, the date and the folder path, its
  host is \<open>b''\<close> and its clean name is computed from its name.
\<close>

datatype made = Str_url Bookmark | Other_url string json json string

fun made_name :: "made \<Rightarrow> string" where
  "made_name (Str_url bm) = name bm"
| "made_name (Other_url nm u d p) = nm"

fun made_url :: "made \<Rightarrow> json" where
  "made_url (Str_url bm) = JStr (url bm)"
| "made_url (Other_url nm u d p) = u"

definition Bookmark_new :: "json \<Rightarrow> json \<Rightarrow> json \<Rightarrow> string \<Rightarrow> error + made" where
  "Bookmark_new nm u d p =
     (case u of
        JStr us \<Rightarrow>
          (case nm of
             JStr ns \<Rightarrow>
               (case Bookmark_init ns us d p of Inl e \<Rightarrow> Inl e | Inr bm \<Rightarrow> Inr (Str_url bm))
           | _ \<Rightarrow> (case urlparse_netloc us of Inl e \<Rightarrow> Inl e | Inr host \<Rightarrow> Inl TypeError))
      | _ \<Rightarrow>
          (if truthy u then Inl AttributeError
           else (case nm of JStr ns \<Rightarrow> Inr (Other_url ns u d p) | _ \<Rightarrow> Inl TypeError)))"

text \<open>An object as the constructor leaves it.\<close>

fun built :: "made \<Rightarrow> bool" where
  "built (Str_url bm) = constructed bm"
| "built (Other_url nm u d p) = (Bookmark_new (JStr nm) u d p = Inr (Other_url nm u d p))"

section \<open>Categories\<close>

definition CATEGORIES :: "(string \<times> string list) list" where
  "CATEGORIES =
     [(''tools'', [''tool'', ''editor'', ''IDE'', ''cli'', ''terminal'', ''utility'', ''app'', ''software'']),
      (''saas'', [''dashboard'', ''platform'', ''service'', ''api'', ''cloud'', ''app'', ''automation'']),
      (''games'', [''game'', ''unity'', ''unreal'', ''godot'', ''phaser'', ''pygame'', ''engine'']),
      (''hardware'', [''arduino'', ''raspberry'', ''pi'', ''iot'', ''sensor'', ''esp32'', ''microcontroller'']),
      (''web'', [''html'', ''css'', ''javascript'', ''react'', ''vue'', ''svelte'', ''frontend'', ''backend'']),
      (''ai_ml'', [''ai'', ''ml'', ''machine learning'', ''neural'', ''gpt'', ''llm'', ''model'', ''tensorflow'']),
      (''data'', [''database'', ''sql'', ''nosql'', ''analytics'', ''visualization'', ''dashboard'']),
      (''creative'', [''design'', ''art'', ''music'', ''video'', ''generator'', ''creator'']),
      (''dev_ops'', [''docker'', ''kubernetes'', ''ci/cd'', ''deploy'', ''infrastructure'', ''monitoring'']),
      (''mobile'', [''ios'', ''android'', ''mobile'', ''app'', ''flutter'', ''react native''])]"

definition category_text :: "Bookmark \<Rightarrow> string" where
  "category_text bm = lower (name bm @ '' '' @ url bm @ '' '' @ domain bm)"

text \<open>\<open>sum(1 for kw in keywords if kw.lower() in text)\<close>.\<close>

definition keyword_score :: "string list \<Rightarrow> string \<Rightarrow> nat" where
  "keyword_score keywords text = length (filter (\<lambda>kw. str_in (lower kw) text) keywords)"

text \<open>The dictionary \<open>scores\<close>: the categories with a positive score, in table order.\<close>

definition category_scores :: "(string \<times> string list) list \<Rightarrow> string \<Rightarrow> (string \<times> nat) list" where
  "category_scores table text =
     filter (\<lambda>item. snd item > 0) (map (\<lambda>entry. (fst entry, keyword_score (snd entry) text)) table)"

text \<open>
  \<open>max(items, key=lambda x: x[1])\<close> on a non-empty sequence: the running best is
  replaced only by an item with a greater key, so the first of the greatest is returned.
\<close>

fun max_by_score :: "string \<times> nat \<Rightarrow> (string \<times> nat) list \<Rightarrow> string \<times> nat" where
  "max_by_score best [] = best"
| "max_by_score best (x # xs) = max_by_score (if snd x > snd best then x else best) xs"

definition categorize_in :: "(string \<times> string list) list \<Rightarrow> Bookmark \<Rightarrow> string" where
  "categorize_in table bm =
     (case category_scores table (category_text bm) of
        [] \<Rightarrow> ''other''
      | x # xs \<Rightarrow> fst (max_by_score x xs))"

definition categorize :: "Bookmark \<Rightarrow> string" where
  "categorize bm = categorize_in CATEGORIES bm"

section \<open>Buildability\<close>

definition EASY_INDICATORS :: "string list" where
  "EASY_INDICATORS = [''cli'', ''script'', ''bot'', ''scraper'', ''parser'', ''converter'',
     ''simple'', ''basic'']"

definition HARD_INDICATORS :: "string list" where
  "HARD_INDICATORS = [''platform'', ''enterprise'', ''scale'', ''infrastructure'',
     ''distributed'', ''complex'']"

text \<open>\<open>sum(1 for ind in inds if ind in text)\<close>.\<close>

definition indicator_count :: "string list \<Rightarrow> string \<Rightarrow> nat" where
  "indicator_count inds text = length (filter (\<lambda>ind. str_in ind text) inds)"

definition score_text :: "Bookmark \<Rightarrow> string" where
  "score_text bm = lower (name bm @ '' '' @ url bm)"

text \<open>
  The score before the clamp, and the notes, in the order of the source's four steps.
  Python's floats are modelled by the reals: the additions are exact here.
\<close>

definition easy_step :: "Bookmark \<Rightarrow> real \<times> string list \<Rightarrow> real \<times> string list" where
  "easy_step bm st =
     (let easy_count = indicator_count EASY_INDICATORS (score_text bm) in
      if easy_count > 0
      then (fst st + 0.1 * real easy_count,
            snd st @ [''Contains '' @ str_of_nat easy_count @ '' easy-build indicators''])
      else st)"

definition hard_step :: "Bookmark \<Rightarrow> real \<times> string list \<Rightarrow> real \<times> string list" where
  "hard_step bm st =
     (let hard_count = indicator_count HARD_INDICATORS (score_text bm) in
      if hard_count > 0
      then (fst st - 0.15 * real hard_count,
            snd st @ [''Contains '' @ str_of_nat hard_count @ '' complex indicators''])
      else st)"

definition category_step :: "string \<Rightarrow> real \<times> string list \<Rightarrow> real \<times> string list" where
  "category_step category st =
     (if category \<in> set [''tools'', ''cli'', ''web'']
      then (fst st + 0.15, snd st @ [''Category is weekend-friendly''])
      else if category \<in> set [''hardware'', ''infrastructure'', ''platform'']
      then (fst st - 0.2, snd st @ [''Category typically requires more time''])
      else st)"

definition github_note :: string where
  "github_note = ''GitHub project (likely has code reference)''"

definition github_step :: "Bookmark \<Rightarrow> real \<times> string list \<Rightarrow> real \<times> string list" where
  "github_step bm st =
     (if str_in ''github.com'' (url bm)
      then (fst st + 0.1, snd st @ [github_note])
      else st)"

definition raw_buildability :: "Bookmark \<Rightarrow> string \<Rightarrow> real \<times> string list" where
  "raw_buildability bm category =
     github_step bm (category_step category (hard_step bm (easy_step bm (0.5, []))))"

definition calculate_buildability :: "Bookmark \<Rightarrow> string \<Rightarrow> real \<times> string" where
  "calculate_buildability bm category =
     (let (score, reasons) = raw_buildability bm category in
      (max 0.0 (min 1.0 score),
       if reasons \<noteq> [] then join ''; '' reasons else ''Standard project complexity''))"

section \<open>Concepts\<close>

text \<open>\<open>s.replace(old, '')\<close>: every non-overlapping occurrence of \<open>old\<close> removed, left to right.\<close>

function str_remove :: "string \<Rightarrow> string \<Rightarrow> string" where
  "str_remove old [] = []"
| "str_remove old (c # cs) =
     (if old \<noteq> [] \<and> starts_with old (c # cs)
      then str_remove old (drop (length old - 1) cs)
      else c # str_remove old cs)"
  by pat_completeness auto
termination
  by (relation "measure (\<lambda>(old, s). length s)") auto

text \<open>
  \<open>list(set(xs))\<close> lists the distinct elements of \<open>xs\<close> in the iteration order of a Python
  set, which follows the strings' hash values; these are salted anew for each interpreter
  process. The order is therefore a parameter of the model, \<open>set_order\<close>: the function
  from a sequence to the listing of its set in the running interpreter. What the language
  guarantees about it is \<open>set_listing\<close>.
\<close>

definition set_listing :: "(string list \<Rightarrow> string list) \<Rightarrow> bool" where
  "set_listing set_order = (\<forall>xs. set (set_order xs) = set xs \<and> distinct (set_order xs))"

definition extract_concepts :: "(string list \<Rightarrow> string list) \<Rightarrow> Bookmark \<Rightarrow> string list" where
  "extract_concepts set_order bm =
     (let words = findall word_pattern None (clean_name bm);
          concepts = take 5 words;
          domain_parts = split_on (CHR ''.'') (str_remove ''www.'' (domain bm));
          concepts = (if domain_parts \<noteq> [] then concepts @ [hd domain_parts] else concepts);
          concepts = set_order (map lower (filter (\<lambda>c. length c > 3) concepts))
      in take 8 concepts)"

text \<open>The sequence the set of \<open>extract_concepts\<close> is built from.\<close>

definition candidates :: "Bookmark \<Rightarrow> string list" where
  "candidates bm =
     (let words = findall word_pattern None (clean_name bm);
          concepts = take 5 words;
          domain_parts = split_on (CHR ''.'') (str_remove ''www.'' (domain bm));
          concepts = (if domain_parts \<noteq> [] then concepts @ [hd domain_parts] else concepts)
      in map lower (filter (\<lambda>c. length c > 3) concepts))"

section \<open>Ranking\<close>

record ProjectIdea =
  title :: string
  idea_url :: string
  category :: string
  concepts :: "string list"
  buildable_score :: real
  weekend_feasible :: bool
  reasoning :: string
  source_bookmark :: string

text \<open>The body of the loop of \<open>analyze\<close>, up to the idea it builds.\<close>

definition analyze_one :: "(string list \<Rightarrow> string list) \<Rightarrow> Bookmark \<Rightarrow> ProjectIdea" where
  "analyze_one set_order bm =
     (let cat = categorize bm;
          cs = extract_concepts set_order bm;
          (score, why) = calculate_buildability bm cat
      in \<lparr>title = clean_name bm, idea_url = url bm, category = cat, concepts = cs,
          buildable_score = score, weekend_feasible = (score \<ge> 0.6), reasoning = why,
          source_bookmark = name bm\<rparr>)"

text \<open>
  \<open>analyze\<close>: an idea is dropped when \<open>buildable_only\<close> is set and it is not
  weekend-feasible; the rest is sorted by descending score. Python's sort is stable, also
  with \<open>reverse=True\<close>, and so is \<^const>\<open>sort_key\<close> on the negated score.
\<close>

definition analyze :: "(string list \<Rightarrow> string list) \<Rightarrow> Bookmark list \<Rightarrow> bool \<Rightarrow> ProjectIdea list" where
  "analyze set_order bookmarks buildable_only =
     sort_key (\<lambda>idea. - buildable_score idea)
       (filter (\<lambda>idea. \<not> (buildable_only \<and> \<not> weekend_feasible idea))
          (map (analyze_one set_order) bookmarks))"

text \<open>
  \<open>analyze\<close> on the objects the constructor makes. On a record with a string URL the loop
  body is as above and raises nothing. On an object whose URL is not a string,
  \<open>categorize\<close> formats its text and returns, and \<open>extract_concepts\<close> then calls
  \<open>replace('www.', '')\<close> on the host \<open>b''\<close>, which raises \<open>TypeError\<close>: the call of
  \<open>analyze\<close> leaves with it, whatever else the list holds.
\<close>

fun str_url_of :: "made \<Rightarrow> Bookmark list" where
  "str_url_of (Str_url bm) = [bm]"
| "str_url_of (Other_url nm u d p) = []"

fun has_other_url :: "made \<Rightarrow> bool" where
  "has_other_url (Str_url bm) = False"
| "has_other_url (Other_url nm u d p) = True"

definition analyze_objects ::
  "(string list \<Rightarrow> string list) \<Rightarrow> made list \<Rightarrow> bool \<Rightarrow> error + ProjectIdea list" where
  "analyze_objects set_order bookmarks buildable_only =
     (if list_ex has_other_url bookmarks then Inl TypeError
      else Inr (analyze set_order (concat (map str_url_of bookmarks)) buildable_only))"

section \<open>The tree extractor\<close>

text \<open>\<open>d.get(k, default)\<close> on a dictionary.\<close>

definition dict_get :: "(string \<times> json) list \<Rightarrow> string \<Rightarrow> json \<Rightarrow> json" where
  "dict_get kvs k dflt = (case map_of kvs k of None \<Rightarrow> dflt | Some v \<Rightarrow> v)"

text \<open>A value found in a dictionary is smaller than the dictionary: for termination.\<close>

lemma size_map_of: "map_of kvs k = Some v \<Longrightarrow> size v < size (JObj kvs)"
  by (induction kvs) (auto split: if_splits)

lemma size_children:
  "dict_get kvs k (JArr []) = JArr cs \<Longrightarrow> size_list size cs < size (JObj kvs)"
proof (cases "map_of kvs k")
  case None
  assume "dict_get kvs k (JArr []) = JArr cs"
  with None show ?thesis by (simp add: dict_get_def)
next
  case (Some v)
  assume "dict_get kvs k (JArr []) = JArr cs"
  with Some have "v = JArr cs" by (simp add: dict_get_def)
  with size_map_of [OF Some] show ?thesis by simp
qed

text \<open>
  The interpreter bounds the depth of nested calls and raises \<open>RecursionError\<close> beyond
  it. How much of that depth is left when \<open>parse_chrome\<close> runs is not fixed by the code,
  so the model takes it as a parameter, in three parts. \<open>load_depth\<close> is the deepest
  nesting of lists and dictionaries that \<open>json.load\<close> decodes: the decoder descends one
  level for each. \<open>frames_left\<close> is the number of nested calls that still fit when
  \<open>parse_chrome\<close> calls \<open>traverse\<close> on a root. \<open>inner_frames\<close> is, for a node, the depth
  that the calls \<open>traverse\<close> makes on it need beyond the frame of \<open>traverse\<close> itself, the
  recursive calls apart: \<open>get\<close>, \<open>str\<close>, and the constructor with \<open>urlparse\<close> and
  \<open>re.sub\<close>.
\<close>

record stack =
  load_depth :: nat
  frames_left :: nat
  inner_frames :: "json \<Rightarrow> nat"

definition deeper :: "stack \<Rightarrow> stack" where
  "deeper st = st\<lparr>frames_left := frames_left st - 1\<rparr>"

text \<open>The nesting of a document, as the decoder counts it.\<close>

fun nesting :: "json \<Rightarrow> nat" where
  "nesting (JArr xs) = Suc (foldr max (map nesting xs) 0)"
| "nesting (JObj kvs) = Suc (foldr max (map (\<lambda>kv. nesting (snd kv)) kvs) 0)"
| "nesting v = 0"

text \<open>
  \<open>traverse\<close>, the inner function of \<open>parse_chrome\<close>. It appends to the list \<open>bookmarks\<close>
  of the enclosing call; the model returns what one call appends, or the exception it
  leaves with. A call that does not fit the depth left raises \<open>RecursionError\<close>, and so
  does a node whose inner calls do not fit; all of these come before the loop over the
  children. A node that is not a dictionary has no \<open>get\<close>: \<open>AttributeError\<close>. The loop
  over \<open>children\<close> iterates a list; a string or a dictionary yields strings, on which the
  next call has no \<open>get\<close>, and any other value is not iterable. The f-string renders the
  folder name with \<open>str\<close>. The path is never empty when \<open>parse_chrome\<close> runs \<open>traverse\<close>: it
  starts as the name of an allow-listed root and only grows.
\<close>

function (sequential) traverse :: "stack \<Rightarrow> json \<Rightarrow> string \<Rightarrow> error + made list"
  and traverse_children :: "stack \<Rightarrow> json list \<Rightarrow> string \<Rightarrow> error + made list"
where
  "traverse st (JObj node) path =
     (if frames_left st \<le> inner_frames st (JObj node) then Inl RecursionError
      else if dict_get node ''type'' JNull = JStr ''url'' then
        (case Bookmark_new (dict_get node ''name'' (JStr ''Untitled''))
                (dict_get node ''url'' (JStr [])) (dict_get node ''date_added'' JNull) path of
           Inl e \<Rightarrow> Inl e
         | Inr bm \<Rightarrow> Inr [bm])
      else if dict_get node ''type'' JNull = JStr ''folder'' then
        (let folder_name = dict_get node ''name'' (JStr ''Unnamed'');
             new_path = (if path \<noteq> [] then path @ ''/'' @ py_str folder_name
                         else py_str folder_name)
         in case dict_get node ''children'' (JArr []) of
              JArr children \<Rightarrow> traverse_children (deeper st) children new_path
            | JStr s \<Rightarrow>
                (if s = [] then Inr []
                 else if frames_left (deeper st) = 0 then Inl RecursionError
                 else Inl AttributeError)
            | JObj m \<Rightarrow>
                (if m = [] then Inr []
                 else if frames_left (deeper st) = 0 then Inl RecursionError
                 else Inl AttributeError)
            | _ \<Rightarrow> Inl TypeError)
      else Inr [])"
| "traverse st node path =
     (if frames_left st = 0 then Inl RecursionError else Inl AttributeError)"
| "traverse_children st [] path = Inr []"
| "traverse_children st (child # rest) path =
     (case traverse st child path of
        Inl e \<Rightarrow> Inl e
      | Inr bs \<Rightarrow>
          (case traverse_children st rest path of
             Inl e \<Rightarrow> Inl e
           | Inr bs' \<Rightarrow> Inr (bs @ bs')))"
  by pat_completeness auto
termination
  by (relation "measure (\<lambda>x. case x of Inl (st, node, path) \<Rightarrow> 2 * size node
                                  | Inr (st, cs, path) \<Rightarrow> 2 * size_list size cs + 1)")
    (auto dest: size_children)

text \<open>
  The loop over \<open>roots.items()\<close>, and \<open>parse_chrome\<close> on the document the file holds:
  \<open>json.load\<close> decodes it, unless it is nested deeper than the decoder can go.
\<close>

definition allowed_roots :: "string list" where
  "allowed_roots = [''bookmark_bar'', ''other'', ''synced'']"

fun traverse_roots :: "stack \<Rightarrow> (string \<times> json) list \<Rightarrow> error + made list" where
  "traverse_roots st [] = Inr []"
| "traverse_roots st ((root_name, root_node) # rest) =
     (if root_name \<in> set allowed_roots
      then (case traverse st root_node root_name of
              Inl e \<Rightarrow> Inl e
            | Inr bs \<Rightarrow>
                (case traverse_roots st rest of
                   Inl e \<Rightarrow> Inl e
                 | Inr bs' \<Rightarrow> Inr (bs @ bs')))
      else traverse_roots st rest)"

definition parse_chrome :: "stack \<Rightarrow> json \<Rightarrow> error + made list" where
  "parse_chrome st data =
     (if load_depth st < nesting data then Inl RecursionError
      else case data of
        JObj obj \<Rightarrow>
          (case dict_get obj ''roots'' (JObj []) of
             JObj roots \<Rightarrow> traverse_roots st roots
           | _ \<Rightarrow> Inl AttributeError)
      | _ \<Rightarrow> Inl AttributeError)"

section \<open>The tree in the spec's words\<close>

text \<open>
  The leaves reachable from a node: the node itself when its kind is \<open>url\<close>, the leaves
  reachable from its children, in their order, when it is a folder, and none otherwise.
\<close>

function (sequential) url_nodes :: "json \<Rightarrow> json list"
  and url_nodes_list :: "json list \<Rightarrow> json list"
where
  "url_nodes (JObj node) =
     (if dict_get node ''type'' JNull = JStr ''url'' then [JObj node]
      else if dict_get node ''type'' JNull = JStr ''folder'' then
        (case dict_get node ''children'' (JArr []) of
           JArr children \<Rightarrow> url_nodes_list children
         | _ \<Rightarrow> [])
      else [])"
| "url_nodes node = []"
| "url_nodes_list [] = []"
| "url_nodes_list (child # rest) = url_nodes child @ url_nodes_list rest"
  by pat_completeness auto
termination
  by (relation "measure (\<lambda>x. case x of Inl node \<Rightarrow> 2 * size node
                                  | Inr cs \<Rightarrow> 2 * size_list size cs + 1)")
    (auto dest: size_children)

text \<open>
  A valid node is a dictionary; a leaf's name and URL are strings where present, and the
  URL is one the URL parser accepts; a folder's name is a string where present and its
  children are a list of valid nodes. A node of any other kind is valid as it is.
\<close>

definition is_str :: "json \<Rightarrow> bool" where
  "is_str v = (case v of JStr s \<Rightarrow> True | _ \<Rightarrow> False)"

definition url_accepted :: "json \<Rightarrow> bool" where
  "url_accepted v =
     (case v of
        JStr u \<Rightarrow> (case urlparse_netloc u of Inl e \<Rightarrow> False | Inr h \<Rightarrow> True)
      | _ \<Rightarrow> False)"

function (sequential) valid_node :: "json \<Rightarrow> bool"
  and valid_nodes :: "json list \<Rightarrow> bool"
where
  "valid_node (JObj node) =
     (if dict_get node ''type'' JNull = JStr ''url'' then
        is_str (dict_get node ''name'' (JStr ''Untitled''))
        \<and> url_accepted (dict_get node ''url'' (JStr []))
      else if dict_get node ''type'' JNull = JStr ''folder'' then
        (case dict_get node ''children'' (JArr []) of
           JArr children \<Rightarrow>
             is_str (dict_get node ''name'' (JStr ''Unnamed'')) \<and> valid_nodes children
         | _ \<Rightarrow> False)
      else True)"
| "valid_node node = False"
| "valid_nodes [] = True"
| "valid_nodes (child # rest) = (valid_node child \<and> valid_nodes rest)"
  by pat_completeness auto
termination
  by (relation "measure (\<lambda>x. case x of Inl node \<Rightarrow> 2 * size node
                                  | Inr cs \<Rightarrow> 2 * size_list size cs + 1)")
    (auto dest: size_children)

text \<open>
  A valid tree is a dictionary whose \<open>roots\<close>, where present, is a dictionary with a valid
  node at each allow-listed root. Nothing is asked of the other roots.
\<close>

definition valid_tree :: "json \<Rightarrow> bool" where
  "valid_tree data =
     (case data of
        JObj obj \<Rightarrow>
          (case dict_get obj ''roots'' (JObj []) of
             JObj roots \<Rightarrow>
               list_all (\<lambda>root. fst root \<in> set allowed_roots \<longrightarrow> valid_node (snd root)) roots
           | _ \<Rightarrow> False)
      | _ \<Rightarrow> False)"

definition reachable_leaves :: "json \<Rightarrow> json list" where
  "reachable_leaves data =
     (case data of
        JObj obj \<Rightarrow>
          (case dict_get obj ''roots'' (JObj []) of
             JObj roots \<Rightarrow>
               concat (map (\<lambda>root. url_nodes (snd root))
                 (filter (\<lambda>root. fst root \<in> set allowed_roots) roots))
           | _ \<Rightarrow> [])
      | _ \<Rightarrow> [])"

text \<open>The name and the URL a leaf gives its record.\<close>

definition str_field :: "string \<Rightarrow> string \<Rightarrow> json \<Rightarrow> string" where
  "str_field k dflt node =
     (case node of
        JObj kvs \<Rightarrow> (case dict_get kvs k (JStr dflt) of JStr s \<Rightarrow> s | _ \<Rightarrow> [])
      | _ \<Rightarrow> [])"

definition leaf_name :: "json \<Rightarrow> string" where
  "leaf_name node = str_field ''name'' ''Untitled'' node"

definition leaf_url :: "json \<Rightarrow> string" where
  "leaf_url node = str_field ''url'' [] node"

definition is_mapping :: "json \<Rightarrow> bool" where
  "is_mapping v = (case v of JObj kvs \<Rightarrow> True | _ \<Rightarrow> False)"

text \<open>
  A URL value the constructor takes without an exception: a string that the URL parser
  accepts, or a value that is not a string and is false.
\<close>

definition url_taken :: "json \<Rightarrow> bool" where
  "url_taken v =
     (case v of
        JStr u \<Rightarrow> (case urlparse_netloc u of Inl e \<Rightarrow> False | Inr h \<Rightarrow> True)
      | _ \<Rightarrow> \<not> truthy v)"

text \<open>
  The depth of nested calls a node needs: one frame for the call of \<open>traverse\<close> on it,
  and on top of that what its inner calls need or, for a folder, what its children need,
  whichever is more. A document fits the stack when \<open>json.load\<close> can decode it and each
  allow-listed root needs no more than the depth left.
\<close>

function (sequential) frames_needed :: "(json \<Rightarrow> nat) \<Rightarrow> json \<Rightarrow> nat"
  and frames_needed_list :: "(json \<Rightarrow> nat) \<Rightarrow> json list \<Rightarrow> nat"
where
  "frames_needed inner (JObj node) =
     (if dict_get node ''type'' JNull \<noteq> JStr ''url''
         \<and> dict_get node ''type'' JNull = JStr ''folder'' then
        (case dict_get node ''children'' (JArr []) of
           JArr children \<Rightarrow>
             Suc (max (inner (JObj node)) (frames_needed_list inner children))
         | _ \<Rightarrow> Suc (inner (JObj node)))
      else Suc (inner (JObj node)))"
| "frames_needed inner node = 1"
| "frames_needed_list inner [] = 0"
| "frames_needed_list inner (child # rest) =
     max (frames_needed inner child) (frames_needed_list inner rest)"
  by pat_completeness auto
termination
  by (relation "measure (\<lambda>x. case x of Inl (inner, node) \<Rightarrow> 2 * size node
                                  | Inr (inner, cs) \<Rightarrow> 2 * size_list size cs + 1)")
    (auto dest: size_children)

definition fits :: "stack \<Rightarrow> json \<Rightarrow> bool" where
  "fits st data =
     (nesting data \<le> load_depth st \<and>
      (case data of
         JObj obj \<Rightarrow>
           (case dict_get obj ''roots'' (JObj []) of
              JObj roots \<Rightarrow>
                list_all (\<lambda>root. fst root \<in> set allowed_roots \<longrightarrow>
                            frames_needed (inner_frames st) (snd root) \<le> frames_left st) roots
            | _ \<Rightarrow> True)
       | _ \<Rightarrow> True))"

section \<open>Inputs used in the examples\<close>

definition awesome_cli_tool :: Bookmark where
  "awesome_cli_tool =
     \<lparr>name = ''Awesome CLI Tool - GitHub'', url = ''https://github.com/foo/bar'',
      date_added = JNull, folder_path = ''bookmark_bar'', domain = ''github.com'',
      clean_name = ''Awesome CLI Tool''\<rparr>"

definition docs_mirror :: Bookmark where
  "docs_mirror =
     \<lparr>name = ''Docs'', url = ''https://example.com/github.com'',
      date_added = JNull, folder_path = ''other'', domain = ''example.com'',
      clean_name = ''Docs''\<rparr>"

definition sample_tree :: json where
  "sample_tree =
     JObj [(''checksum'', JStr ''0''),
       (''roots'', JObj
         [(''bookmark_bar'', JObj
            [(''type'', JStr ''folder''), (''name'', JStr ''Bar''),
             (''children'', JArr
               [JObj [(''type'', JStr ''url''), (''name'', JStr ''A''), (''url'', JStr ''https://a.org/x'')],
                JObj [(''type'', JStr ''separator'')],
                JObj [(''type'', JStr ''folder''), (''name'', JStr ''Sub''),
                      (''children'', JArr
                        [JObj [(''type'', JStr ''url''), (''url'', JStr ''b.org'')]])]])]),
          (''trash'', JArr [JObj [(''type'', JStr ''url''), (''name'', JStr ''T''), (''url'', JStr ''t.org'')]]),
          (''other'', JObj [(''type'', JStr ''folder''), (''name'', JStr ''Other'')])])]"

definition broken_host_tree :: json where
  "broken_host_tree =
     JObj [(''roots'', JObj
         [(''bookmark_bar'', JObj
            [(''type'', JStr ''folder''), (''name'', JStr ''Bar''),
             (''children'', JArr
               [JObj [(''type'', JStr ''url''), (''name'', JStr ''Router''),
                      (''url'', JStr ''http://['')]])])])]"

definition empty_name_tree :: json where
  "empty_name_tree =
     JObj [(''roots'', JObj
         [(''bookmark_bar'', JObj
            [(''type'', JStr ''folder''), (''name'', JStr ''Bar''),
             (''children'', JArr
               [JObj [(''type'', JStr ''url''), (''name'', JStr []),
                      (''url'', JStr ''https://a.org/x'')]])])])]"

definition docs_mirror_moved :: Bookmark where
  "docs_mirror_moved =
     \<lparr>name = ''Docs'', url = ''https://example.com/github.com'',
      date_added = JStr ''13350000000000000'', folder_path = ''bookmark_bar/Reading'',
      domain = ''example.com'', clean_name = ''Docs''\<rparr>"

text \<open>
  A stack of about the size the interpreter leaves with its default limit of 1000, and a
  document with \<open>n\<close> folders nested in one another above a single leaf.
\<close>

definition roomy :: stack where
  "roomy = \<lparr>load_depth = 990, frames_left = 990, inner_frames = (\<lambda>node. 40)\<rparr>"

fun nested_folders :: "nat \<Rightarrow> json \<Rightarrow> json" where
  "nested_folders 0 leaf = leaf"
| "nested_folders (Suc n) leaf =
     JObj [(''type'', JStr ''folder''), (''name'', JStr ''f''),
           (''children'', JArr [nested_folders n leaf])]"

definition deep_tree :: "nat \<Rightarrow> json" where
  "deep_tree n =
     JObj [(''roots'', JObj
         [(''bookmark_bar'',
           nested_folders n
             (JObj [(''type'', JStr ''url''), (''name'', JStr ''A''),
                    (''url'', JStr ''https://a.org/x'')]))])]"

text \<open>A leaf whose URL is \<open>null\<close>, under a folder whose name is a number.\<close>

definition null_url_tree :: json where
  "null_url_tree =
     JObj [(''roots'', JObj
         [(''other'', JObj
            [(''type'', JStr ''folder''), (''name'', JInt 7),
             (''children'', JArr
               [JObj [(''type'', JStr ''url''), (''name'', JStr ''N''), (''url'', JNull)]])])])]"

text \<open>A bookmark whose host is an IPv6 address with a port.\<close>

definition local_router :: Bookmark where
  "local_router =
     \<lparr>name = ''Router'', url = ''http://[::1]:80/x'',
      date_added = JNull, folder_path = ''other'', domain = ''[::1]:80'',
      clean_name = ''Router''\<rparr>"

definition local_router_moved :: Bookmark where
  "local_router_moved =
     \<lparr>name = ''Router'', url = ''http://[::1]:80/x'',
      date_added = JInt 1, folder_path = ''bookmark_bar'', domain = ''[::1]:80'',
      clean_name = ''Router''\<rparr>"

section \<open>The score stays in the unit interval\<close>

text \<open>
  C1. For every bookmark and every category string, the score that
  \<open>calculate_buildability\<close> returns lies between 0 and 1, whatever the sum of the
  adjustments before the clamp was.
\<close>

theorem buildable_score_in_unit_interval:
  "0 \<le> fst (calculate_buildability bm cat) \<and> fst (calculate_buildability bm cat) \<le> 1"
  by (simp add: calculate_buildability_def split: prod.split)

section \<open>The worked example\<close>

lemma awesome_init:
  "Bookmark_init ''Awesome CLI Tool - GitHub'' ''https://github.com/foo/bar'' JNull ''bookmark_bar''
     = Inr awesome_cli_tool"
  by code_simp

lemma awesome_category: "categorize awesome_cli_tool = ''tools''"
  by code_simp

lemma awesome_score:
  "calculate_buildability awesome_cli_tool ''tools'' =
     (17 / 20, ''Contains 1 easy-build indicators; Category is weekend-friendly; GitHub project (likely has code reference)'')"
  by code_simp

text \<open>
  C2, as stated, fails. The bookmark named \<open>Awesome CLI Tool - GitHub\<close> at
  \<open>https://github.com/foo/bar\<close> is categorised \<open>tools\<close>, and its score is not 0.70:
  the category \<open>tools\<close> earns the 0.15 of the weekend-friendly categories as well.
\<close>

theorem awesome_cli_tool_score_counterexample:
  "Bookmark_init ''Awesome CLI Tool - GitHub'' ''https://github.com/foo/bar'' JNull ''bookmark_bar''
     = Inr awesome_cli_tool
   \<and> categorize awesome_cli_tool = ''tools''
   \<and> fst (calculate_buildability awesome_cli_tool (categorize awesome_cli_tool)) \<noteq> 0.70"
  by (simp add: awesome_init awesome_category awesome_score)

text \<open>
  C2, amended. For that bookmark the constructor gives the clean name
  \<open>Awesome CLI Tool\<close>, the category is \<open>tools\<close>, the score is
  0.5 + 0.10 (cli) + 0.15 (category tools) + 0.10 (github.com) = 0.85 with the three notes
  joined by \<open>; \<close>, and the idea is weekend-feasible.
\<close>

theorem awesome_cli_tool_example:
  "Bookmark_init ''Awesome CLI Tool - GitHub'' ''https://github.com/foo/bar'' JNull ''bookmark_bar''
     = Inr awesome_cli_tool
   \<and> clean_name awesome_cli_tool = ''Awesome CLI Tool''
   \<and> categorize awesome_cli_tool = ''tools''
   \<and> calculate_buildability awesome_cli_tool (categorize awesome_cli_tool) =
       (0.85, ''Contains 1 easy-build indicators; Category is weekend-friendly; GitHub project (likely has code reference)'')
   \<and> weekend_feasible (analyze_one set_order awesome_cli_tool)"
  by (simp add: awesome_init awesome_category awesome_score analyze_one_def)
    (simp add: awesome_cli_tool_def)

section \<open>The bonus for github.com\<close>

lemma docs_init:
  "Bookmark_init ''Docs'' ''https://example.com/github.com'' JNull ''other'' = Inr docs_mirror"
  by code_simp

lemma docs_category: "categorize docs_mirror = ''other''"
  by code_simp

lemma docs_score: "calculate_buildability docs_mirror ''other'' = (3 / 5, github_note)"
  by code_simp

lemma docs_host: "\<not> str_in ''github.com'' (domain docs_mirror)"
  by code_simp

lemma notes_before_github:
  "github_note \<notin> set (snd (category_step cat (hard_step bm (easy_step bm (s, [])))))"
  by (simp add: easy_step_def hard_step_def category_step_def github_note_def Let_def)

text \<open>
  C3, as stated, fails. The test is on the whole URL, not on its host: the bookmark at
  \<open>https://example.com/github.com\<close> has the host \<open>example.com\<close>, which does not
  contain \<open>github.com\<close>, and yet it gets the bonus: its score is 0.5 + 0.10 and its only
  note is the one of the bonus.
\<close>

theorem github_bonus_path_counterexample:
  "Bookmark_init ''Docs'' ''https://example.com/github.com'' JNull ''other'' = Inr docs_mirror
   \<and> \<not> str_in ''github.com'' (domain docs_mirror)
   \<and> calculate_buildability docs_mirror (categorize docs_mirror) = (0.6, github_note)"
  by (simp add: docs_init docs_category docs_score docs_host)

text \<open>
  C3, amended. For every bookmark and category, the note of the bonus is among the notes
  if and only if the bookmark's URL, as a string and with the case it has, contains
  \<open>github.com\<close> anywhere; and the score before the clamp is then 0.10 above the score
  after the category step, and equal to it otherwise.
\<close>

theorem github_bonus_iff_url_contains:
  "(github_note \<in> set (snd (raw_buildability bm cat))) = str_in ''github.com'' (url bm)
   \<and> fst (raw_buildability bm cat)
       = fst (category_step cat (hard_step bm (easy_step bm (0.5, []))))
         + (if str_in ''github.com'' (url bm) then 0.1 else 0)"
proof -
  obtain s rs where st: "category_step cat (hard_step bm (easy_step bm (0.5, []))) = (s, rs)"
    by (cases "category_step cat (hard_step bm (easy_step bm (0.5, [])))")
  have "github_note \<notin> set rs"
    using notes_before_github [of cat bm "0.5"] st by simp
  then show ?thesis
    using st by (simp add: raw_buildability_def github_step_def)
qed

section \<open>The category with the most keywords, the first of them on a tie\<close>

lemma max_by_score_spec:
  "max_by_score best xs = y \<Longrightarrow>
     (y = best \<and> (\<forall>z\<in>set xs. snd z \<le> snd best))
     \<or> (\<exists>pre post. xs = pre @ y # post \<and> snd best < snd y
           \<and> (\<forall>z\<in>set pre. snd z < snd y) \<and> (\<forall>z\<in>set post. snd z \<le> snd y))"
proof (induction xs arbitrary: best)
  case Nil
  then show ?case by simp
next
  case (Cons x xs)
  show ?case
  proof (cases "snd x > snd best")
    case True
    with Cons.prems have "max_by_score x xs = y" by simp
    from Cons.IH [OF this] show ?thesis
    proof
      assume "y = x \<and> (\<forall>z\<in>set xs. snd z \<le> snd x)"
      with True have "x # xs = [] @ y # xs \<and> snd best < snd y
         \<and> (\<forall>z\<in>set []. snd z < snd y) \<and> (\<forall>z\<in>set xs. snd z \<le> snd y)" by simp
      then show ?thesis by blast
    next
      assume "\<exists>pre post. xs = pre @ y # post \<and> snd x < snd y
           \<and> (\<forall>z\<in>set pre. snd z < snd y) \<and> (\<forall>z\<in>set post. snd z \<le> snd y)"
      then obtain pre post where h: "xs = pre @ y # post" "snd x < snd y"
        "\<forall>z\<in>set pre. snd z < snd y" "\<forall>z\<in>set post. snd z \<le> snd y" by blast
      with True have "x # xs = (x # pre) @ y # post \<and> snd best < snd y
         \<and> (\<forall>z\<in>set (x # pre). snd z < snd y) \<and> (\<forall>z\<in>set post. snd z \<le> snd y)" by simp
      then show ?thesis by blast
    qed
  next
    case False
    with Cons.prems have "max_by_score best xs = y" by simp
    from Cons.IH [OF this] show ?thesis
    proof
      assume "y = best \<and> (\<forall>z\<in>set xs. snd z \<le> snd best)"
      with False show ?thesis by simp
    next
      assume "\<exists>pre post. xs = pre @ y # post \<and> snd best < snd y
           \<and> (\<forall>z\<in>set pre. snd z < snd y) \<and> (\<forall>z\<in>set post. snd z \<le> snd y)"
      then obtain pre post where h: "xs = pre @ y # post" "snd best < snd y"
        "\<forall>z\<in>set pre. snd z < snd y" "\<forall>z\<in>set post. snd z \<le> snd y" by blast
      with False have "x # xs = (x # pre) @ y # post \<and> snd best < snd y
         \<and> (\<forall>z\<in>set (x # pre). snd z < snd y) \<and> (\<forall>z\<in>set post. snd z \<le> snd y)" by simp
      then show ?thesis by blast
    qed
  qed
qed

lemma max_by_score_first:
  "\<exists>pre post. x # xs = pre @ max_by_score x xs # post
     \<and> (\<forall>z\<in>set pre. snd z < snd (max_by_score x xs))
     \<and> (\<forall>z\<in>set post. snd z \<le> snd (max_by_score x xs))"
proof -
  let ?y = "max_by_score x xs"
  from max_by_score_spec [OF refl, of x xs] show ?thesis
  proof
    assume "?y = x \<and> (\<forall>z\<in>set xs. snd z \<le> snd x)"
    then have "x # xs = [] @ ?y # xs \<and> (\<forall>z\<in>set []. snd z < snd ?y) \<and> (\<forall>z\<in>set xs. snd z \<le> snd ?y)"
      by simp
    then show ?thesis by blast
  next
    assume "\<exists>pre post. xs = pre @ ?y # post \<and> snd x < snd ?y
           \<and> (\<forall>z\<in>set pre. snd z < snd ?y) \<and> (\<forall>z\<in>set post. snd z \<le> snd ?y)"
    then obtain pre post where h: "xs = pre @ ?y # post" "snd x < snd ?y"
        "\<forall>z\<in>set pre. snd z < snd ?y" "\<forall>z\<in>set post. snd z \<le> snd ?y" by blast
    then have "x # xs = (x # pre) @ ?y # post \<and> (\<forall>z\<in>set (x # pre). snd z < snd ?y)
       \<and> (\<forall>z\<in>set post. snd z \<le> snd ?y)" by simp
    then show ?thesis by blast
  qed
qed

lemma filter_map_split:
  "filter P (map f xs) = pre' @ y # post' \<Longrightarrow>
     \<exists>pre e post. xs = pre @ e # post \<and> f e = y \<and> P y
       \<and> filter P (map f pre) = pre' \<and> filter P (map f post) = post'"
proof (induction xs arbitrary: pre')
  case Nil
  then show ?case by simp
next
  case (Cons x xs)
  show ?case
  proof (cases "P (f x)")
    case False
    with Cons.prems have "filter P (map f xs) = pre' @ y # post'" by simp
    from Cons.IH [OF this] obtain pre e post where
      "xs = pre @ e # post" "f e = y" "P y" "filter P (map f pre) = pre'" "filter P (map f post) = post'"
      by blast
    with False have "x # xs = (x # pre) @ e # post \<and> f e = y \<and> P y
       \<and> filter P (map f (x # pre)) = pre' \<and> filter P (map f post) = post'" by simp
    then show ?thesis by blast
  next
    case True
    show ?thesis
    proof (cases pre')
      case Nil
      with True Cons.prems have "f x = y" "filter P (map f xs) = post'" by simp_all
      with True Nil have "x # xs = [] @ x # xs \<and> f x = y \<and> P y
        \<and> filter P (map f []) = pre' \<and> filter P (map f xs) = post'" by simp
      then show ?thesis by blast
    next
      case (Cons p ps)
      with True Cons.prems have px: "f x = p" and rest: "filter P (map f xs) = ps @ y # post'" by simp_all
      from Cons.IH [OF rest] obtain pre e post where
        "xs = pre @ e # post" "f e = y" "P y" "filter P (map f pre) = ps" "filter P (map f post) = post'"
        by blast
      with True px Cons have "x # xs = (x # pre) @ e # post \<and> f e = y \<and> P y
       \<and> filter P (map f (x # pre)) = pre' \<and> filter P (map f post) = post'" by simp
      then show ?thesis by blast
    qed
  qed
qed


lemma in_filter_map: "e \<in> set xs \<Longrightarrow> P (f e) \<Longrightarrow> f e \<in> set (filter P (map f xs))"
  by simp

lemma categorize_in_other:
  assumes "\<forall>(c, kws)\<in>set table. keyword_score kws (category_text bm) = 0"
  shows "categorize_in table bm = ''other''"
proof -
  have "\<not> snd (fst entry, keyword_score (snd entry) (category_text bm)) > 0"
    if "entry \<in> set table" for entry
    using assms that by (cases entry) auto
  then have "category_scores table (category_text bm) = []"
    unfolding category_scores_def filter_empty_conv by auto
  then show ?thesis by (simp add: categorize_in_def)
qed

lemma categorize_in_best:
  assumes "\<exists>(c, kws)\<in>set table. keyword_score kws (category_text bm) > 0"
  shows "\<exists>pre c kws post. table = pre @ (c, kws) # post \<and> categorize_in table bm = c
     \<and> keyword_score kws (category_text bm) > 0
     \<and> (\<forall>(c', kws')\<in>set pre. keyword_score kws' (category_text bm) < keyword_score kws (category_text bm))
     \<and> (\<forall>(c', kws')\<in>set post. keyword_score kws' (category_text bm) \<le> keyword_score kws (category_text bm))"
proof -
  let ?t = "category_text bm"
  let ?sc = "\<lambda>entry. (fst entry, keyword_score (snd entry) ?t)"
  let ?pos = "\<lambda>item::string \<times> nat. snd item > 0"
  from assms obtain c0 k0 where m0: "(c0, k0) \<in> set table" and p0: "keyword_score k0 ?t > 0"
    by blast
  have "?pos (?sc (c0, k0))" using p0 by simp
  with m0 have "?sc (c0, k0) \<in> set (filter ?pos (map ?sc table))"
    by (rule in_filter_map)
  then have ne: "category_scores table ?t \<noteq> []"
    unfolding category_scores_def by (metis empty_iff empty_set)
  then obtain x xs where xs: "category_scores table ?t = x # xs"
    by (cases "category_scores table ?t") simp_all
  let ?y = "max_by_score x xs"
  have cat: "categorize_in table bm = fst ?y"
    by (simp add: categorize_in_def xs)
  from max_by_score_first [of x xs] obtain pre' post' where
    split: "x # xs = pre' @ ?y # post'" and
    before: "\<forall>z\<in>set pre'. snd z < snd ?y" and
    after: "\<forall>z\<in>set post'. snd z \<le> snd ?y" by blast
  have "filter ?pos (map ?sc table) = pre' @ ?y # post'"
    using xs split by (simp add: category_scores_def)
  from filter_map_split [OF this] obtain pre e post where
    t: "table = pre @ e # post" and e: "?sc e = ?y" and pos: "?pos ?y" and
    fpre: "filter ?pos (map ?sc pre) = pre'" and
    fpost: "filter ?pos (map ?sc post) = post'"
    by blast
  have y1: "fst ?y = fst e" and y2: "snd ?y = keyword_score (snd e) ?t"
    using e [symmetric] by simp_all
  have kpos: "keyword_score (snd e) ?t > 0" using pos y2 by simp
  have b: "keyword_score (snd e') ?t < keyword_score (snd e) ?t" if m: "e' \<in> set pre" for e'
  proof (cases "keyword_score (snd e') ?t > 0")
    case True
    then have "?pos (?sc e')" by simp
    with m have "?sc e' \<in> set (filter ?pos (map ?sc pre))"
      by (rule in_filter_map)
    then have "snd (?sc e') < snd ?y" using fpre before by auto
    then show ?thesis using y2 by simp
  next
    case False
    with kpos show ?thesis by simp
  qed
  have a: "keyword_score (snd e') ?t \<le> keyword_score (snd e) ?t" if m: "e' \<in> set post" for e'
  proof (cases "keyword_score (snd e') ?t > 0")
    case True
    then have "?pos (?sc e')" by simp
    with m have "?sc e' \<in> set (filter ?pos (map ?sc post))"
      by (rule in_filter_map)
    then have "snd (?sc e') \<le> snd ?y" using fpost after by auto
    then show ?thesis using y2 by simp
  next
    case False
    then show ?thesis by simp
  qed
  have b': "\<forall>(c', kws')\<in>set pre. keyword_score kws' ?t < keyword_score (snd e) ?t"
    using b by fastforce
  have a': "\<forall>(c', kws')\<in>set post. keyword_score kws' ?t \<le> keyword_score (snd e) ?t"
    using a by fastforce
  have t': "table = pre @ (fst e, snd e) # post" using t by simp
  have c': "categorize_in table bm = fst e" using cat y1 by simp
  show ?thesis
    using t' c' kpos b' a' by blast
qed

text \<open>
  C4. For every bookmark, with the score of a category being the number of its keywords
  that occur in the lowercased text of name, URL and host: if no category of the table
  has a positive score, \<open>categorize\<close> returns \<open>other\<close>; otherwise it returns a category
  of the table whose score is positive, greater than the score of every category before
  it in the table and at least the score of every category after it, which is the first
  of the categories with the highest score.
\<close>

theorem categorize_first_highest:
  "((\<forall>(c, kws)\<in>set CATEGORIES. keyword_score kws (category_text bm) = 0)
      \<longrightarrow> categorize bm = ''other'')
   \<and> ((\<exists>(c, kws)\<in>set CATEGORIES. keyword_score kws (category_text bm) > 0)
      \<longrightarrow> (\<exists>pre c kws post. CATEGORIES = pre @ (c, kws) # post \<and> categorize bm = c
            \<and> keyword_score kws (category_text bm) > 0
            \<and> (\<forall>(c', kws')\<in>set pre.
                  keyword_score kws' (category_text bm) < keyword_score kws (category_text bm))
            \<and> (\<forall>(c', kws')\<in>set post.
                  keyword_score kws' (category_text bm) \<le> keyword_score kws (category_text bm))))"
  unfolding categorize_def
  using categorize_in_other [of CATEGORIES bm] categorize_in_best [of CATEGORIES bm]
  by blast


lemma docs_no_keyword:
  "\<forall>(c, kws)\<in>set CATEGORIES. keyword_score kws (category_text docs_mirror) = 0"
  by code_simp

lemma awesome_some_keyword:
  "\<exists>(c, kws)\<in>set CATEGORIES. keyword_score kws (category_text awesome_cli_tool) > 0"
  by code_simp

text \<open>
  The theorem at two bookmarks: none of the keywords occurs in the text of \<open>docs_mirror\<close>,
  and some occur in the text of \<open>awesome_cli_tool\<close>.
\<close>

theorem categorize_first_highest_witness:
  "(\<not> (\<exists>(c, kws)\<in>set CATEGORIES. keyword_score kws (category_text docs_mirror) > 0)
      \<and> categorize docs_mirror = ''other'')
   \<and> ((\<exists>(c, kws)\<in>set CATEGORIES. keyword_score kws (category_text awesome_cli_tool) > 0)
      \<and> (\<exists>pre c kws post. CATEGORIES = pre @ (c, kws) # post \<and> categorize awesome_cli_tool = c
            \<and> keyword_score kws (category_text awesome_cli_tool) > 0
            \<and> (\<forall>(c', kws')\<in>set pre.
                  keyword_score kws' (category_text awesome_cli_tool)
                    < keyword_score kws (category_text awesome_cli_tool))
            \<and> (\<forall>(c', kws')\<in>set post.
                  keyword_score kws' (category_text awesome_cli_tool)
                    \<le> keyword_score kws (category_text awesome_cli_tool))))"
proof -
  have none: "\<not> (\<exists>(c, kws)\<in>set CATEGORIES. keyword_score kws (category_text docs_mirror) > 0)"
    using docs_no_keyword by fastforce
  have other: "categorize docs_mirror = ''other''"
    using categorize_first_highest [of docs_mirror] docs_no_keyword by blast
  have best: "\<exists>pre c kws post. CATEGORIES = pre @ (c, kws) # post \<and> categorize awesome_cli_tool = c
            \<and> keyword_score kws (category_text awesome_cli_tool) > 0
            \<and> (\<forall>(c', kws')\<in>set pre.
                  keyword_score kws' (category_text awesome_cli_tool)
                    < keyword_score kws (category_text awesome_cli_tool))
            \<and> (\<forall>(c', kws')\<in>set post.
                  keyword_score kws' (category_text awesome_cli_tool)
                    \<le> keyword_score kws (category_text awesome_cli_tool))"
    using categorize_first_highest [of awesome_cli_tool] awesome_some_keyword by blast
  from none other awesome_some_keyword best show ?thesis
    by (intro conjI)
qed

section \<open>The clean name\<close>

lemma newline_is_space: "is_space (CHR 0x0A)"
  by (simp add: is_space_def code_def)

lemma sep_not_space: "is_sep c \<Longrightarrow> \<not> is_space c"
  by (auto simp: is_sep_def is_space_def code_def)

lemma sep_not_word: "is_sep c \<Longrightarrow> \<not> is_word c"
  by (auto simp: is_sep_def is_word_def is_upper_az_def is_lower_az_def code_def)

lemma sep_not_word_or_space: "is_sep c \<Longrightarrow> \<not> is_word_or_space c"
  by (simp add: is_word_or_space_def sep_not_space sep_not_word)

lemma rmatch_star_eos:
  assumes "p (CHR 0x0A)"
  shows "rmatch [Star p, Eos] prev s = (if list_all p s then Some [] else None)"
proof (induction s arbitrary: prev)
  case Nil
  show ?case by (simp add: at_end_def)
next
  case (Cons c cs)
  show ?case
  proof (cases "p c")
    case True
    show ?thesis
    proof (cases "list_all p cs")
      case all: True
      with True Cons.IH show ?thesis by simp
    next
      case False
      then have "cs \<noteq> []" by auto
      with True False Cons.IH show ?thesis by (simp add: at_end_def)
    qed
  next
    case False
    with assms have "c \<noteq> CHR 0x0A" by auto
    with False show ?thesis by (simp add: at_end_def)
  qed
qed

lemma rmatch_plus_eos:
  assumes "p (CHR 0x0A)"
  shows "rmatch [One p, Star p, Eos] prev s = (if s \<noteq> [] \<and> list_all p s then Some [] else None)"
  by (cases s) (simp_all add: rmatch_star_eos [of p, OF assms])

lemma rmatch_star_plus_eos:
  assumes nl: "p (CHR 0x0A)" and sub: "\<And>c. q c \<Longrightarrow> p c"
  shows "rmatch [Star q, One p, Star p, Eos] prev s
           = (if s \<noteq> [] \<and> list_all p s then Some [] else None)"
proof (induction s arbitrary: prev)
  case Nil
  show ?case by simp
next
  case (Cons c cs)
  show ?case
  proof (cases "q c")
    case True
    then have pc: "p c" by (rule sub)
    show ?thesis
    proof (cases "cs \<noteq> [] \<and> list_all p cs")
      case True
      with \<open>q c\<close> pc Cons.IH show ?thesis by simp
    next
      case False
      with \<open>q c\<close> Cons.IH have "rmatch [Star q, One p, Star p, Eos] (Some c) cs = None" by simp
      with \<open>q c\<close> have "rmatch [Star q, One p, Star p, Eos] prev (c # cs)
          = rmatch [One p, Star p, Eos] prev (c # cs)" by simp
      also have "\<dots> = (if list_all p cs then Some [] else None)"
        using pc by (simp add: rmatch_star_eos [of p, OF nl])
      finally show ?thesis using False pc by auto
    qed
  next
    case False
    then have "rmatch [Star q, One p, Star p, Eos] prev (c # cs)
          = rmatch [One p, Star p, Eos] prev (c # cs)" by simp
    also have "\<dots> = (if c # cs \<noteq> [] \<and> list_all p (c # cs) then Some [] else None)"
      by (rule rmatch_plus_eos [of p, OF nl])
    finally show ?thesis .
  qed
qed

lemma rmatch_suffix:
  "rmatch [Star is_space, One is_sep, Star is_space, One is_word_or_space,
           Star is_word_or_space, Eos] prev s
     = (if trailing_suffix s then Some [] else None)"
proof (induction s arbitrary: prev)
  case Nil
  show ?case by (simp add: trailing_suffix_def)
next
  case (Cons c cs)
  have nl: "is_word_or_space (CHR 0x0A)"
    by (simp add: is_word_or_space_def newline_is_space)
  have sub: "\<And>c. is_space c \<Longrightarrow> is_word_or_space c"
    by (simp add: is_word_or_space_def)
  have tail: "rmatch [Star is_space, One is_word_or_space, Star is_word_or_space, Eos] p r
       = (if r \<noteq> [] \<and> list_all is_word_or_space r then Some [] else None)" for p r
    by (rule rmatch_star_plus_eos [of is_word_or_space is_space, OF nl sub])
  show ?case
  proof (cases "is_space c")
    case True
    then have ns: "\<not> is_sep c" using sep_not_space by blast
    have ts: "trailing_suffix (c # cs) = trailing_suffix cs"
      using True by (simp add: trailing_suffix_def)
    show ?thesis using True ns ts Cons.IH by simp
  next
    case False
    then have ts: "trailing_suffix (c # cs) = (is_sep c \<and> cs \<noteq> [] \<and> list_all is_word_or_space cs)"
      by (simp add: trailing_suffix_def)
    show ?thesis using False ts tail by simp
  qed
qed

lemma rmatch_alt_suffix:
  "rmatch_alt suffix_pattern prev s = (if trailing_suffix s then Some [] else None)"
  by (simp add: suffix_pattern_def rmatch_suffix)

lemma re_sub_step:
  "re_sub suffix_pattern prev (c # cs)
     = (if trailing_suffix (c # cs) then [] else c # re_sub suffix_pattern (Some c) cs)"
  by (simp add: rmatch_alt_suffix)

lemma trailing_suffix_iff:
  "trailing_suffix s =
     (\<exists>ws sep tail. s = ws @ sep # tail \<and> list_all is_space ws \<and> is_sep sep \<and> tail \<noteq> []
        \<and> list_all is_word_or_space tail)"
proof
  assume ts: "trailing_suffix s"
  then obtain c r where d: "dropWhile is_space s = c # r"
    by (cases "dropWhile is_space s") (simp_all add: trailing_suffix_def)
  with ts have p: "is_sep c" "r \<noteq> []" "list_all is_word_or_space r"
    by (simp_all add: trailing_suffix_def)
  have "s = takeWhile is_space s @ c # r"
    using d takeWhile_dropWhile_id [of is_space s] by simp
  moreover have "list_all is_space (takeWhile is_space s)"
    by (simp add: list_all_iff) (meson set_takeWhileD)
  ultimately show "\<exists>ws sep tail. s = ws @ sep # tail \<and> list_all is_space ws \<and> is_sep sep
      \<and> tail \<noteq> [] \<and> list_all is_word_or_space tail"
    using p by blast
next
  assume "\<exists>ws sep tail. s = ws @ sep # tail \<and> list_all is_space ws \<and> is_sep sep \<and> tail \<noteq> []
        \<and> list_all is_word_or_space tail"
  then obtain ws sep tail where h: "s = ws @ sep # tail" "list_all is_space ws" "is_sep sep"
    "tail \<noteq> []" "list_all is_word_or_space tail" by blast
  from h(3) have "\<not> is_space sep" by (rule sep_not_space)
  then have "dropWhile is_space s = dropWhile is_space ws @ sep # tail"
    using h(1) by (simp add: dropWhile_append3)
  moreover have "dropWhile is_space ws = []"
    using h(2) by (simp add: list_all_iff)
  ultimately show "trailing_suffix s"
    using h by (simp add: trailing_suffix_def)
qed

lemma trailing_suffix_has_sep:
  assumes "trailing_suffix s"
  shows "\<exists>c\<in>set s. is_sep c"
proof -
  from assms obtain ws sep tail where "s = ws @ sep # tail" "is_sep sep"
    unfolding trailing_suffix_iff by blast
  then show ?thesis by auto
qed

lemma trailing_suffix_prefix_spaces:
  assumes long: "trailing_suffix (p @ suf)" and short: "trailing_suffix suf"
  shows "list_all is_space p"
proof (rule ccontr)
  assume "\<not> list_all is_space p"
  then obtain x where x: "x \<in> set p" "\<not> is_space x" by (auto simp: list_all_iff)
  then have d: "dropWhile is_space (p @ suf) = dropWhile is_space p @ suf"
    by (simp add: dropWhile_append1)
  from x have "dropWhile is_space p \<noteq> []" by (auto simp: dropWhile_eq_Nil_conv)
  then obtain c r where cr: "dropWhile is_space p = c # r"
    by (cases "dropWhile is_space p") simp_all
  from long d cr have "list_all is_word_or_space (r @ suf)"
    by (simp add: trailing_suffix_def)
  then have all: "\<forall>y\<in>set suf. is_word_or_space y" by (simp add: list_all_iff)
  from trailing_suffix_has_sep [OF short] obtain y where "y \<in> set suf" "is_sep y" by blast
  with all sep_not_word_or_space show False by blast
qed

lemma re_sub_prefix:
  assumes "trailing_suffix suf"
  shows "pre = [] \<or> \<not> is_space (last pre) \<Longrightarrow> re_sub suffix_pattern prev (pre @ suf) = pre"
proof (induction pre arbitrary: prev)
  case Nil
  from assms have "suf \<noteq> []" by (auto simp: trailing_suffix_def)
  then obtain c cs where "suf = c # cs" by (cases suf) simp_all
  with assms show ?case by (simp add: re_sub_step del: re_sub.simps)
next
  case (Cons c pre)
  have "\<not> trailing_suffix ((c # pre) @ suf)"
  proof
    assume "trailing_suffix ((c # pre) @ suf)"
    from trailing_suffix_prefix_spaces [OF this assms] have "list_all is_space (c # pre)" .
    then have "is_space (last (c # pre))" by (simp add: list_all_iff)
    with Cons.prems show False by simp
  qed
  moreover have "pre = [] \<or> \<not> is_space (last pre)"
    using Cons.prems by (cases pre) simp_all
  ultimately show ?case
    using Cons.IH by (simp add: re_sub_step del: re_sub.simps)
qed

lemma re_sub_no_suffix:
  "\<not> (\<exists>pre sep tail. s = pre @ sep # tail \<and> is_sep sep \<and> tail \<noteq> []
         \<and> list_all is_word_or_space tail)
     \<Longrightarrow> re_sub suffix_pattern prev s = s"
proof (induction s arbitrary: prev)
  case Nil
  show ?case by simp
next
  case (Cons c cs)
  have nts: "\<not> trailing_suffix (c # cs)"
  proof
    assume "trailing_suffix (c # cs)"
    then obtain ws sep tail where "c # cs = ws @ sep # tail" "is_sep sep" "tail \<noteq> []"
      "list_all is_word_or_space tail"
      unfolding trailing_suffix_iff by blast
    with Cons.prems show False by blast
  qed
  have "\<not> (\<exists>pre sep tail. cs = pre @ sep # tail \<and> is_sep sep \<and> tail \<noteq> []
         \<and> list_all is_word_or_space tail)"
  proof
    assume "\<exists>pre sep tail. cs = pre @ sep # tail \<and> is_sep sep \<and> tail \<noteq> []
         \<and> list_all is_word_or_space tail"
    then obtain pre sep tail where "cs = pre @ sep # tail" "is_sep sep" "tail \<noteq> []"
      "list_all is_word_or_space tail" by blast
    then have "c # cs = (c # pre) @ sep # tail \<and> is_sep sep \<and> tail \<noteq> []
      \<and> list_all is_word_or_space tail" by simp
    with Cons.prems show False by blast
  qed
  from Cons.IH [OF this] nts show ?case by (simp add: re_sub_step del: re_sub.simps)
qed

lemma untrimmed_ex1: "Bookmark_clean_name '' - GitHub '' = '' - GitHub ''" by code_simp
lemma untrimmed_ex2: "strip (re_sub suffix_pattern None '' - GitHub '') = []" by code_simp
lemma untrimmed_ex3: "strip '' - GitHub '' = ''- GitHub''" by code_simp

text \<open>
  C5, as stated, fails in its second half. For the name \<open> - GitHub \<close> the substitution
  leaves nothing, and the clean name is the name as it is, with its leading and
  trailing blank, not the trimmed name.
\<close>

theorem clean_name_fallback_counterexample:
  "strip (re_sub suffix_pattern None '' - GitHub '') = []
   \<and> Bookmark_clean_name '' - GitHub '' \<noteq> strip '' - GitHub ''"
  by (simp add: untrimmed_ex1 untrimmed_ex2 untrimmed_ex3 del: re_sub.simps)

text \<open>
  C5, amended. When the name is \<open>pre\<close>, whitespace, a separator \<open>-\<close> or \<open>|\<close>, and a
  non-empty tail of word and whitespace characters, where \<open>pre\<close> does not end in
  whitespace, the substitution removes this one suffix and nothing of \<open>pre\<close>, whatever
  separators \<open>pre\<close> holds: the clean name is \<open>pre\<close> trimmed, or the name unchanged (not
  trimmed) when that is empty. When no separator of the name is followed by a non-empty
  tail of word and whitespace characters only, nothing is removed: the clean name is the
  name trimmed, or the name unchanged when that is empty.
\<close>

theorem clean_name_strips_last_suffix:
  "(nm = pre @ ws @ sep # tail \<and> (pre = [] \<or> \<not> is_space (last pre)) \<and> list_all is_space ws
      \<and> is_sep sep \<and> tail \<noteq> [] \<and> list_all is_word_or_space tail
     \<longrightarrow> Bookmark_clean_name nm = (if strip pre \<noteq> [] then strip pre else nm))
   \<and> (\<not> (\<exists>pre sep tail. nm = pre @ sep # tail \<and> is_sep sep \<and> tail \<noteq> []
            \<and> list_all is_word_or_space tail)
     \<longrightarrow> Bookmark_clean_name nm = (if strip nm \<noteq> [] then strip nm else nm))"
proof (intro conjI impI)
  assume h: "nm = pre @ ws @ sep # tail \<and> (pre = [] \<or> \<not> is_space (last pre))
      \<and> list_all is_space ws \<and> is_sep sep \<and> tail \<noteq> [] \<and> list_all is_word_or_space tail"
  then have "trailing_suffix (ws @ sep # tail)"
    unfolding trailing_suffix_iff by blast
  with h have "re_sub suffix_pattern None nm = pre"
    by (simp add: re_sub_prefix)
  then show "Bookmark_clean_name nm = (if strip pre \<noteq> [] then strip pre else nm)"
    by (simp add: Bookmark_clean_name_def)
next
  assume "\<not> (\<exists>pre sep tail. nm = pre @ sep # tail \<and> is_sep sep \<and> tail \<noteq> []
            \<and> list_all is_word_or_space tail)"
  then have "re_sub suffix_pattern None nm = nm" by (rule re_sub_no_suffix)
  then show "Bookmark_clean_name nm = (if strip nm \<noteq> [] then strip nm else nm)"
    by (simp add: Bookmark_clean_name_def)
qed

lemma no_sep_no_suffix:
  "\<forall>c\<in>set s. \<not> is_sep c \<Longrightarrow>
     \<not> (\<exists>pre sep tail. s = pre @ sep # tail \<and> is_sep sep \<and> tail \<noteq> []
            \<and> list_all is_word_or_space tail)"
  by auto

lemma strip_ex1: "strip ''A - B'' = ''A - B''" by code_simp
lemma strip_ex2: "strip [] = []" by code_simp
lemma strip_ex3: "strip ''Docs'' = ''Docs''" by code_simp

text \<open>
  The theorem at three names: one with two suffixes, of which the last goes; one that
  is all suffix; one without a separator.
\<close>

theorem clean_name_strips_last_suffix_witness:
  "Bookmark_clean_name ''A - B - C'' = ''A - B''
   \<and> Bookmark_clean_name '' - GitHub '' = '' - GitHub ''
   \<and> Bookmark_clean_name ''Docs'' = ''Docs''"
proof -
  have a: "Bookmark_clean_name ''A - B - C'' = ''A - B''"
    using clean_name_strips_last_suffix [of "''A - B - C''" "''A - B''" "'' ''" "CHR ''-''" "'' C''"]
    by (simp add: strip_ex1 is_space_def is_sep_def is_word_or_space_def is_word_def
          is_upper_az_def is_lower_az_def code_def)
  have b: "Bookmark_clean_name '' - GitHub '' = '' - GitHub ''"
    using clean_name_strips_last_suffix [of "'' - GitHub ''" "[]" "'' ''" "CHR ''-''" "'' GitHub ''"]
    by (simp add: strip_ex2 is_space_def is_sep_def is_word_or_space_def is_word_def
          is_upper_az_def is_lower_az_def code_def)
  have "\<forall>c\<in>set ''Docs''. \<not> is_sep c" by (simp add: is_sep_def)
  from no_sep_no_suffix [OF this] have c: "Bookmark_clean_name ''Docs'' = ''Docs''"
    using clean_name_strips_last_suffix [of "''Docs''"] by (simp add: strip_ex3)
  from a b c show ?thesis by simp
qed

section \<open>One record for each reachable leaf\<close>

lemma traverse_valid:
  "(valid_node node \<and> frames_needed (inner_frames st) node \<le> frames_left st \<longrightarrow>
      (\<exists>bs. traverse st node path = Inr (map Str_url bs)
         \<and> map name bs = map leaf_name (url_nodes node)
         \<and> map url bs = map leaf_url (url_nodes node)))"
  "(valid_nodes nodes \<and> frames_needed_list (inner_frames st) nodes \<le> frames_left st \<longrightarrow>
      (\<exists>bs. traverse_children st nodes path = Inr (map Str_url bs)
         \<and> map name bs = map leaf_name (url_nodes_list nodes)
         \<and> map url bs = map leaf_url (url_nodes_list nodes)))"
proof (induction st node path and st nodes path rule: traverse_traverse_children.induct)
  case (1 st node path)
  show ?case
  proof
    assume a: "valid_node (JObj node) \<and> frames_needed (inner_frames st) (JObj node) \<le> frames_left st"
    then have v: "valid_node (JObj node)"
      and f: "frames_needed (inner_frames st) (JObj node) \<le> frames_left st" by simp_all
    have "Suc (inner_frames st (JObj node)) \<le> frames_needed (inner_frames st) (JObj node)"
      by (simp split: json.splits)
    with f have room: "\<not> frames_left st \<le> inner_frames st (JObj node)" by simp
    show "\<exists>bs. traverse st (JObj node) path = Inr (map Str_url bs)
         \<and> map name bs = map leaf_name (url_nodes (JObj node))
         \<and> map url bs = map leaf_url (url_nodes (JObj node))"
    proof (cases "dict_get node ''type'' JNull = JStr ''url''")
      case True
      with v obtain nm u h where
        nm: "dict_get node ''name'' (JStr ''Untitled'') = JStr nm" and
        u: "dict_get node ''url'' (JStr []) = JStr u" and
        h: "urlparse_netloc u = Inr h"
        by (auto simp: is_str_def url_accepted_def split: json.splits sum.splits)
      let ?bm = "\<lparr>name = nm, url = u, date_added = dict_get node ''date_added'' JNull,
                  folder_path = path, domain = h, clean_name = Bookmark_clean_name nm\<rparr>"
      have "traverse st (JObj node) path = Inr (map Str_url [?bm])"
        using True room nm u h by (simp add: Bookmark_new_def Bookmark_init_def)
      moreover have "map name [?bm] = map leaf_name (url_nodes (JObj node))"
        using True nm by (simp add: leaf_name_def str_field_def)
      moreover have "map url [?bm] = map leaf_url (url_nodes (JObj node))"
        using True u by (simp add: leaf_url_def str_field_def)
      ultimately show ?thesis by blast
    next
      case False
      note not_url = False
      show ?thesis
      proof (cases "dict_get node ''type'' JNull = JStr ''folder''")
        case False
        have "traverse st (JObj node) path = Inr (map Str_url [])"
          using not_url False room by simp
        moreover have "url_nodes (JObj node) = []" using not_url False by simp
        ultimately show ?thesis by (metis list.simps(8))
      next
        case True
        with v not_url obtain children where
          ch: "dict_get node ''children'' (JArr []) = JArr children" and
          vc: "valid_nodes children"
          by (auto simp: is_str_def split: json.splits)
        let ?fn = "dict_get node ''name'' (JStr ''Unnamed'')"
        let ?np = "if path \<noteq> [] then path @ ''/'' @ py_str ?fn else py_str ?fn"
        from f not_url True ch
        have "frames_needed_list (inner_frames (deeper st)) children \<le> frames_left (deeper st)"
          by (simp add: deeper_def)
        with "1.IH" [OF room not_url True refl refl ch] vc
        obtain bs where bs: "traverse_children (deeper st) children ?np = Inr (map Str_url bs)"
          "map name bs = map leaf_name (url_nodes_list children)"
          "map url bs = map leaf_url (url_nodes_list children)"
          by blast
        have "traverse st (JObj node) path = Inr (map Str_url bs)"
          using not_url True ch room bs(1) by (simp add: Let_def)
        moreover have "url_nodes (JObj node) = url_nodes_list children"
          using not_url True ch by simp
        ultimately show ?thesis using bs(2,3) by auto
      qed
    qed
  qed
next
  case (4 st child rest path)
  show ?case
  proof
    assume a: "valid_nodes (child # rest)
       \<and> frames_needed_list (inner_frames st) (child # rest) \<le> frames_left st"
    then have vc: "valid_node child" and vr: "valid_nodes rest"
      and fc: "frames_needed (inner_frames st) child \<le> frames_left st"
      and fr: "frames_needed_list (inner_frames st) rest \<le> frames_left st" by simp_all
    from "4.IH"(1) vc fc obtain bs where bs: "traverse st child path = Inr (map Str_url bs)"
      "map name bs = map leaf_name (url_nodes child)"
      "map url bs = map leaf_url (url_nodes child)" by blast
    from "4.IH"(2) [OF bs(1)] vr fr obtain bs' where
      bs': "traverse_children st rest path = Inr (map Str_url bs')"
      "map name bs' = map leaf_name (url_nodes_list rest)"
      "map url bs' = map leaf_url (url_nodes_list rest)" by blast
    have "traverse_children st (child # rest) path = Inr (map Str_url (bs @ bs'))"
      using bs(1) bs'(1) by simp
    moreover have "map name (bs @ bs') = map leaf_name (url_nodes_list (child # rest))"
      using bs(2) bs'(2) by simp
    moreover have "map url (bs @ bs') = map leaf_url (url_nodes_list (child # rest))"
      using bs(3) bs'(3) by simp
    ultimately show "\<exists>bs. traverse_children st (child # rest) path = Inr (map Str_url bs)
         \<and> map name bs = map leaf_name (url_nodes_list (child # rest))
         \<and> map url bs = map leaf_url (url_nodes_list (child # rest))"
      by blast
  qed
qed simp_all

lemma traverse_roots_valid:
  "list_all (\<lambda>root. fst root \<in> set allowed_roots \<longrightarrow> valid_node (snd root)) roots \<Longrightarrow>
   list_all (\<lambda>root. fst root \<in> set allowed_roots \<longrightarrow>
               frames_needed (inner_frames st) (snd root) \<le> frames_left st) roots \<Longrightarrow>
     \<exists>bs. traverse_roots st roots = Inr (map Str_url bs)
       \<and> map name bs = map leaf_name
            (concat (map (\<lambda>root. url_nodes (snd root))
               (filter (\<lambda>root. fst root \<in> set allowed_roots) roots)))
       \<and> map url bs = map leaf_url
            (concat (map (\<lambda>root. url_nodes (snd root))
               (filter (\<lambda>root. fst root \<in> set allowed_roots) roots)))"
proof (induction roots)
  case Nil
  have "traverse_roots st [] = Inr (map Str_url [])" by simp
  then show ?case by fastforce
next
  case (Cons root roots)
  obtain k v where root: "root = (k, v)" by (cases root)
  from Cons.prems have rest:
    "list_all (\<lambda>root. fst root \<in> set allowed_roots \<longrightarrow> valid_node (snd root)) roots"
    "list_all (\<lambda>root. fst root \<in> set allowed_roots \<longrightarrow>
               frames_needed (inner_frames st) (snd root) \<le> frames_left st) roots"
    by simp_all
  from Cons.IH [OF rest] obtain bs' where bs': "traverse_roots st roots = Inr (map Str_url bs')"
    "map name bs' = map leaf_name
       (concat (map (\<lambda>root. url_nodes (snd root))
          (filter (\<lambda>root. fst root \<in> set allowed_roots) roots)))"
    "map url bs' = map leaf_url
       (concat (map (\<lambda>root. url_nodes (snd root))
          (filter (\<lambda>root. fst root \<in> set allowed_roots) roots)))"
    by blast
  show ?case
  proof (cases "k \<in> set allowed_roots")
    case False
    have "traverse_roots st (root # roots) = Inr (map Str_url bs')"
      using False root bs'(1) by simp
    moreover have "concat (map (\<lambda>root. url_nodes (snd root))
          (filter (\<lambda>root. fst root \<in> set allowed_roots) (root # roots)))
        = concat (map (\<lambda>root. url_nodes (snd root))
          (filter (\<lambda>root. fst root \<in> set allowed_roots) roots))"
      using False root by simp
    ultimately show ?thesis using bs'(2,3) by metis
  next
    case True
    with Cons.prems root have "valid_node v" "frames_needed (inner_frames st) v \<le> frames_left st"
      by simp_all
    with traverse_valid(1) [of v st k] obtain bs where bs: "traverse st v k = Inr (map Str_url bs)"
      "map name bs = map leaf_name (url_nodes v)" "map url bs = map leaf_url (url_nodes v)"
      by blast
    have "traverse_roots st (root # roots) = Inr (map Str_url (bs @ bs'))"
      using True root bs(1) bs'(1) by simp
    moreover have "map name (bs @ bs') = map leaf_name
       (concat (map (\<lambda>root. url_nodes (snd root))
          (filter (\<lambda>root. fst root \<in> set allowed_roots) (root # roots))))"
      using True root bs(2) bs'(2) by simp
    moreover have "map url (bs @ bs') = map leaf_url
       (concat (map (\<lambda>root. url_nodes (snd root))
          (filter (\<lambda>root. fst root \<in> set allowed_roots) (root # roots))))"
      using True root bs(3) bs'(3) by simp
    ultimately show ?thesis by blast
  qed
qed

lemma broken_host_result: "parse_chrome roomy broken_host_tree = Inl ValueError"
  by code_simp

lemma broken_host_leaves: "length (reachable_leaves broken_host_tree) = 1"
  by code_simp

lemma broken_host_fits: "fits roomy broken_host_tree"
  by code_simp

text \<open>Folders nested in one another: two levels of the document for each.\<close>

lemma nested_folders_get:
  "dict_get [(''type'', JStr ''folder''), (''name'', JStr ''f''), (''children'', JArr [x])]
     ''type'' JNull = JStr ''folder''"
  "dict_get [(''type'', JStr ''folder''), (''name'', JStr ''f''), (''children'', JArr [x])]
     ''name'' (JStr ''Unnamed'') = JStr ''f''"
  "dict_get [(''type'', JStr ''folder''), (''name'', JStr ''f''), (''children'', JArr [x])]
     ''children'' (JArr []) = JArr [x]"
  by (simp_all add: dict_get_def)

lemma nested_folders_nesting: "nesting (nested_folders n leaf) = 2 * n + nesting leaf"
  by (induction n) simp_all

lemma nested_folders_valid: "valid_node (nested_folders n leaf) = valid_node leaf"
  by (induction n) (simp_all add: nested_folders_get is_str_def)

lemma nested_folders_leaves: "url_nodes (nested_folders n leaf) = url_nodes leaf"
  by (induction n) (simp_all add: nested_folders_get)

lemma deep_leaf_valid:
  "valid_node (JObj [(''type'', JStr ''url''), (''name'', JStr ''A''), (''url'', JStr ''https://a.org/x'')])"
  by code_simp

lemma deep_leaf_nodes:
  "url_nodes (JObj [(''type'', JStr ''url''), (''name'', JStr ''A''), (''url'', JStr ''https://a.org/x'')])
     = [JObj [(''type'', JStr ''url''), (''name'', JStr ''A''), (''url'', JStr ''https://a.org/x'')]]"
  by code_simp

lemma deep_tree_valid: "valid_tree (deep_tree n)"
  using deep_leaf_valid
  by (simp add: valid_tree_def deep_tree_def dict_get_def allowed_roots_def nested_folders_valid
      del: valid_node.simps)

lemma deep_tree_leaves: "length (reachable_leaves (deep_tree n)) = 1"
  using deep_leaf_nodes
  by (simp add: reachable_leaves_def deep_tree_def dict_get_def allowed_roots_def
      nested_folders_leaves del: url_nodes.simps)

lemma deep_tree_nesting: "nesting (deep_tree n) = 2 * n + 3"
  by (simp add: deep_tree_def nested_folders_nesting)

lemma deep_tree_result: "parse_chrome roomy (deep_tree 500) = Inl RecursionError"
  by (simp add: parse_chrome_def deep_tree_nesting roomy_def)

text \<open>
  C6, as stated, fails, in two ways. A tree whose only leaf has the URL \<open>http://[\<close> has
  the shape the spec asks of a tree, with one leaf reachable from an allow-listed root;
  the constructor of its record parses the URL, the parser raises \<open>ValueError\<close>, and the
  extractor leaves with it instead of emitting a record, on a stack the tree fits. And a
  tree of 500 folders nested in one another above one well-formed leaf is nested deeper
  than an interpreter with the default recursion limit decodes: the extractor leaves
  with \<open>RecursionError\<close>.
\<close>

theorem parse_chrome_leaf_without_record_counterexample:
  "length (reachable_leaves broken_host_tree) = 1
   \<and> fits roomy broken_host_tree
   \<and> parse_chrome roomy broken_host_tree = Inl ValueError
   \<and> valid_tree (deep_tree 500)
   \<and> length (reachable_leaves (deep_tree 500)) = 1
   \<and> parse_chrome roomy (deep_tree 500) = Inl RecursionError"
  by (simp add: broken_host_result broken_host_leaves broken_host_fits deep_tree_valid
      deep_tree_leaves deep_tree_result)

text \<open>
  C6, amended. For every valid tree whose leaf URLs the URL parser accepts, and which
  fits the stack (the decoder can descend to its deepest nesting, and the depth of calls
  left covers its deepest leaf), the extractor returns a list of records with exactly one
  record for each leaf reachable from an allow-listed root through folders, in pre-order:
  the names and the URLs of the records are those of the reachable leaves, in their
  order. Folders add no record; the other roots, whatever they hold, and the nodes of any
  other kind are passed over.
\<close>

theorem parse_chrome_one_record_per_leaf:
  assumes "valid_tree data" and "fits st data"
  shows "\<exists>bs. parse_chrome st data = Inr (map Str_url bs)
       \<and> length bs = length (reachable_leaves data)
       \<and> map name bs = map leaf_name (reachable_leaves data)
       \<and> map url bs = map leaf_url (reachable_leaves data)"
proof -
  from assms(1) obtain obj where d: "data = JObj obj"
    by (cases data) (simp_all add: valid_tree_def)
  with assms(1) obtain roots where r: "dict_get obj ''roots'' (JObj []) = JObj roots"
    by (cases "dict_get obj ''roots'' (JObj [])") (simp_all add: valid_tree_def)
  with assms(1) d have v: "list_all (\<lambda>root. fst root \<in> set allowed_roots \<longrightarrow> valid_node (snd root)) roots"
    by (simp add: valid_tree_def)
  from assms(2) d r have f: "list_all (\<lambda>root. fst root \<in> set allowed_roots \<longrightarrow>
               frames_needed (inner_frames st) (snd root) \<le> frames_left st) roots"
    and ld: "\<not> load_depth st < nesting data"
    by (simp_all add: fits_def)
  from traverse_roots_valid [OF v f] obtain bs where bs: "traverse_roots st roots = Inr (map Str_url bs)"
    "map name bs = map leaf_name
       (concat (map (\<lambda>root. url_nodes (snd root))
          (filter (\<lambda>root. fst root \<in> set allowed_roots) roots)))"
    "map url bs = map leaf_url
       (concat (map (\<lambda>root. url_nodes (snd root))
          (filter (\<lambda>root. fst root \<in> set allowed_roots) roots)))"
    by blast
  have rl: "reachable_leaves data = concat (map (\<lambda>root. url_nodes (snd root))
          (filter (\<lambda>root. fst root \<in> set allowed_roots) roots))"
    using d r by (simp add: reachable_leaves_def)
  have pc: "parse_chrome st data = Inr (map Str_url bs)"
    using d r bs(1) ld by (simp add: parse_chrome_def)
  from bs(2) have "length (map name bs) = length (map leaf_name (reachable_leaves data))"
    using rl by simp
  then have len: "length bs = length (reachable_leaves data)" by simp
  from pc len bs(2,3) rl show ?thesis by (intro exI [of _ bs]) simp
qed

lemma sample_valid: "valid_tree sample_tree"
  by code_simp

lemma sample_fits: "fits roomy sample_tree"
  by code_simp

lemma sample_leaves:
  "reachable_leaves sample_tree =
     [JObj [(''type'', JStr ''url''), (''name'', JStr ''A''), (''url'', JStr ''https://a.org/x'')],
      JObj [(''type'', JStr ''url''), (''url'', JStr ''b.org'')]]"
  by code_simp

lemma sample_names:
  "map leaf_name
     [JObj [(''type'', JStr ''url''), (''name'', JStr ''A''), (''url'', JStr ''https://a.org/x'')],
      JObj [(''type'', JStr ''url''), (''url'', JStr ''b.org'')]] = [''A'', ''Untitled'']"
  by code_simp

lemma sample_urls:
  "map leaf_url
     [JObj [(''type'', JStr ''url''), (''name'', JStr ''A''), (''url'', JStr ''https://a.org/x'')],
      JObj [(''type'', JStr ''url''), (''url'', JStr ''b.org'')]] = [''https://a.org/x'', ''b.org'']"
  by code_simp

text \<open>
  The theorem at \<open>sample_tree\<close>: two leaves under \<open>bookmark_bar\<close>, one of them in a
  subfolder and without a name, a separator between them, and a root \<open>trash\<close> that is not
  even a dictionary.
\<close>

theorem parse_chrome_one_record_per_leaf_witness:
  "\<exists>bs. parse_chrome roomy sample_tree = Inr (map Str_url bs) \<and> length bs = 2
     \<and> map name bs = [''A'', ''Untitled''] \<and> map url bs = [''https://a.org/x'', ''b.org'']"
  using parse_chrome_one_record_per_leaf [OF sample_valid sample_fits]
  unfolding sample_leaves sample_names sample_urls by (simp add: numeral_2_eq_2)

section \<open>A file that is not a dictionary\<close>

text \<open>
  C7. When the value the file holds is not a dictionary, \<open>parse_chrome\<close> leaves with an
  exception and does not return the empty list: with \<open>AttributeError\<close>, from
  \<open>data.get\<close>, or with \<open>RecursionError\<close>, from \<open>json.load\<close>, when the value is nested
  deeper than the decoder can go.
\<close>

theorem parse_chrome_not_a_mapping:
  "\<not> is_mapping data \<Longrightarrow>
     parse_chrome st data
       = Inl (if load_depth st < nesting data then RecursionError else AttributeError)
     \<and> parse_chrome st data \<noteq> Inr []"
  by (cases data) (simp_all add: is_mapping_def parse_chrome_def)

text \<open>The theorem at the empty list.\<close>

theorem parse_chrome_not_a_mapping_witness:
  "\<not> is_mapping (JArr []) \<and> parse_chrome roomy (JArr []) = Inl AttributeError
     \<and> parse_chrome roomy (JArr []) \<noteq> Inr []"
  using parse_chrome_not_a_mapping [of "JArr []" roomy] by (simp add: is_mapping_def roomy_def)

section \<open>The default name\<close>

lemma empty_name_result:
  "parse_chrome roomy empty_name_tree =
     Inr [Str_url \<lparr>name = [], url = ''https://a.org/x'', date_added = JNull,
           folder_path = ''bookmark_bar/Bar'', domain = ''a.org'', clean_name = []\<rparr>]"
  by code_simp

lemma empty_name_leaves:
  "reachable_leaves empty_name_tree =
     [JObj [(''type'', JStr ''url''), (''name'', JStr []), (''url'', JStr ''https://a.org/x'')]]"
  by code_simp

text \<open>
  C8, as stated, fails. The one leaf of \<open>empty_name_tree\<close> has the empty string for its
  name, and the name of its record is the empty string, not \<open>Untitled\<close>.
\<close>

theorem empty_name_counterexample:
  "reachable_leaves empty_name_tree =
     [JObj [(''type'', JStr ''url''), (''name'', JStr []), (''url'', JStr ''https://a.org/x'')]]
   \<and> parse_chrome roomy empty_name_tree =
       Inr [Str_url \<lparr>name = [], url = ''https://a.org/x'', date_added = JNull,
             folder_path = ''bookmark_bar/Bar'', domain = ''a.org'', clean_name = []\<rparr>]
   \<and> made_name (Str_url \<lparr>name = [], url = ''https://a.org/x'', date_added = JNull,
             folder_path = ''bookmark_bar/Bar'', domain = ''a.org'', clean_name = []\<rparr>)
       \<noteq> ''Untitled''"
  by (simp add: empty_name_result empty_name_leaves)

lemma Bookmark_new_taken:
  assumes "url_taken u"
  shows "\<exists>m. Bookmark_new (JStr n) u d p = Inr m \<and> made_name m = n"
proof (cases "is_str u")
  case True
  then obtain us where us: "u = JStr us" by (cases u) (simp_all add: is_str_def)
  with assms obtain h where "urlparse_netloc us = Inr h"
    by (cases "urlparse_netloc us") (simp_all add: url_taken_def)
  with us show ?thesis by (simp add: Bookmark_new_def Bookmark_init_def)
next
  case False
  with assms have "\<not> truthy u" by (cases u) (simp_all add: url_taken_def is_str_def)
  with False show ?thesis by (cases u) (auto simp: Bookmark_new_def is_str_def)
qed

text \<open>
  C8, amended. For every leaf whose URL the constructor takes, which is a string that
  the URL parser accepts or a value that is not a string and is false, and which is
  visited with the depth of calls it needs still left: when the leaf has no name field,
  \<open>traverse\<close> emits one record for it and the name of the record is \<open>Untitled\<close>; when it
  has a name field that is a string, \<open>traverse\<close> emits one record for it and the name of
  the record is that string, the empty string included.
\<close>

theorem leaf_name_default_when_missing:
  assumes "dict_get node ''type'' JNull = JStr ''url''"
    and "url_taken (dict_get node ''url'' (JStr []))"
    and "inner_frames st (JObj node) < frames_left st"
  shows "(map_of node ''name'' = None \<longrightarrow>
            (\<exists>bm. traverse st (JObj node) path = Inr [bm] \<and> made_name bm = ''Untitled''))
       \<and> (map_of node ''name'' = Some (JStr nm) \<longrightarrow>
            (\<exists>bm. traverse st (JObj node) path = Inr [bm] \<and> made_name bm = nm))"
proof -
  have room: "\<not> frames_left st \<le> inner_frames st (JObj node)"
    using assms(3) by simp
  have emit: "\<exists>bm. traverse st (JObj node) path = Inr [bm] \<and> made_name bm = n"
    if "dict_get node ''name'' (JStr ''Untitled'') = JStr n" for n
    using Bookmark_new_taken [OF assms(2), of n "dict_get node ''date_added'' JNull" path]
      assms(1) room that
    by auto
  have missing: "dict_get node ''name'' (JStr ''Untitled'') = JStr ''Untitled''"
    if "map_of node ''name'' = None"
    using that by (simp add: dict_get_def)
  have present: "dict_get node ''name'' (JStr ''Untitled'') = JStr nm"
    if "map_of node ''name'' = Some (JStr nm)"
    using that by (simp add: dict_get_def)
  from emit missing present show ?thesis by blast
qed

lemma leaf_facts:
  "dict_get [(''type'', JStr ''url''), (''url'', JStr ''http://[::1]:80/x'')] ''type'' JNull = JStr ''url''"
  "url_taken (dict_get [(''type'', JStr ''url''), (''url'', JStr ''http://[::1]:80/x'')] ''url'' (JStr []))"
  "dict_get [(''type'', JStr ''url''), (''name'', JStr []), (''url'', JNull)] ''type'' JNull = JStr ''url''"
  "url_taken (dict_get [(''type'', JStr ''url''), (''name'', JStr []), (''url'', JNull)] ''url'' (JStr []))"
  "inner_frames roomy (JObj [(''type'', JStr ''url''), (''url'', JStr ''http://[::1]:80/x'')]) < frames_left roomy"
  "inner_frames roomy (JObj [(''type'', JStr ''url''), (''name'', JStr []), (''url'', JNull)]) < frames_left roomy"
  "map_of [(''type'', JStr ''url''), (''url'', JStr ''http://[::1]:80/x'')] ''name'' = None"
  "map_of [(''type'', JStr ''url''), (''name'', JStr []), (''url'', JNull)] ''name'' = Some (JStr [])"
  by code_simp+

text \<open>
  The theorem at a leaf without a name, whose host is an IPv6 address, and at a leaf
  with the empty name, whose URL is \<open>null\<close>.
\<close>

theorem leaf_name_default_when_missing_witness:
  "(\<exists>bm. traverse roomy (JObj [(''type'', JStr ''url''), (''url'', JStr ''http://[::1]:80/x'')]) ''other''
            = Inr [bm]
       \<and> made_name bm = ''Untitled'')
   \<and> (\<exists>bm. traverse roomy (JObj [(''type'', JStr ''url''), (''name'', JStr []), (''url'', JNull)])
              ''other'' = Inr [bm]
       \<and> made_name bm = [])"
  using leaf_name_default_when_missing [OF leaf_facts(1) leaf_facts(2) leaf_facts(5), of "''other''" "[]"]
    leaf_name_default_when_missing [OF leaf_facts(3) leaf_facts(4) leaf_facts(6), of "''other''" "[]"]
    leaf_facts(7) leaf_facts(8)
  by blast

section \<open>The concepts and their order\<close>

lemma set_listing_remdups: "set_listing remdups"
  by (simp add: set_listing_def)

lemma set_listing_rev_remdups: "set_listing (rev \<circ> remdups)"
  by (simp add: set_listing_def)

lemma awesome_concepts: "extract_concepts remdups awesome_cli_tool = [''awesome'', ''tool'', ''github'']"
  by code_simp

lemma awesome_concepts_rev:
  "extract_concepts (rev \<circ> remdups) awesome_cli_tool = [''github'', ''tool'', ''awesome'']"
  by code_simp

text \<open>
  C9, as stated, fails. The code lists a set, and nothing in it fixes the order of the
  listing: for the bookmark \<open>awesome_cli_tool\<close>, two listings of the same set, both as
  the language allows them, give the concepts in different orders.
\<close>

theorem concepts_order_counterexample:
  "set_listing remdups \<and> set_listing (rev \<circ> remdups)
   \<and> extract_concepts remdups awesome_cli_tool \<noteq> extract_concepts (rev \<circ> remdups) awesome_cli_tool"
  by (simp add: set_listing_remdups set_listing_rev_remdups awesome_concepts awesome_concepts_rev)

lemma extract_concepts_candidates:
  "extract_concepts set_order bm = take 8 (set_order (candidates bm))"
  by (simp add: extract_concepts_def candidates_def Let_def)

lemma candidates_short: "length (candidates bm) \<le> 6"
proof -
  define ws where "ws = findall word_pattern None (clean_name bm)"
  define parts where "parts = split_on (CHR ''.'') (str_remove ''www.'' (domain bm))"
  define xs where "xs = (if parts \<noteq> [] then take 5 ws @ [hd parts] else take 5 ws)"
  have short: "length xs \<le> 6" by (simp add: xs_def min_def)
  have "candidates bm = map lower (filter (\<lambda>c. length c > 3) xs)"
    by (simp add: candidates_def Let_def xs_def ws_def parts_def)
  then have "length (candidates bm) = length (filter (\<lambda>c. length c > 3) xs)" by simp
  also have "\<dots> \<le> length xs" by (rule length_filter_le)
  also have "\<dots> \<le> 6" by (rule short)
  finally show ?thesis .
qed

lemma listing_take:
  assumes "set_listing set_order"
  shows "take 8 (set_order (candidates bm)) = set_order (candidates bm)"
proof -
  from assms have d: "distinct (set_order (candidates bm))"
    and s: "set (set_order (candidates bm)) = set (candidates bm)"
    by (simp_all add: set_listing_def)
  from d have "length (set_order (candidates bm)) = card (set (set_order (candidates bm)))"
    by (simp add: distinct_card)
  also have "\<dots> = card (set (candidates bm))" using s by simp
  also have "\<dots> \<le> length (candidates bm)" by (rule card_length)
  also have "\<dots> \<le> 6" by (rule candidates_short)
  finally show ?thesis by simp
qed

text \<open>
  C9, amended. For every bookmark, two runs on the same name and URL, each with its own
  listing order of sets, produce concepts lists with the same elements, each without
  duplicates and so of the same length; the order of the elements is that of the run's
  set listing. There are at most six candidates, so the cut at eight never drops one.
\<close>

theorem concepts_same_elements:
  assumes "set_listing order1" and "set_listing order2"
  shows "set (extract_concepts order1 bm) = set (extract_concepts order2 bm)
     \<and> distinct (extract_concepts order1 bm) \<and> distinct (extract_concepts order2 bm)
     \<and> length (extract_concepts order1 bm) = length (extract_concepts order2 bm)"
proof -
  have e1: "extract_concepts order1 bm = order1 (candidates bm)"
    by (simp add: extract_concepts_candidates listing_take [OF assms(1)])
  have e2: "extract_concepts order2 bm = order2 (candidates bm)"
    by (simp add: extract_concepts_candidates listing_take [OF assms(2)])
  from assms have p: "set (order1 (candidates bm)) = set (candidates bm)"
    "set (order2 (candidates bm)) = set (candidates bm)"
    "distinct (order1 (candidates bm))" "distinct (order2 (candidates bm))"
    by (simp_all add: set_listing_def)
  from p have "length (order1 (candidates bm)) = card (set (candidates bm))"
    "length (order2 (candidates bm)) = card (set (candidates bm))"
    by (metis distinct_card)+
  with p e1 e2 show ?thesis by simp
qed

text \<open>The theorem at \<open>awesome_cli_tool\<close> and the two listings of the counterexample.\<close>

theorem concepts_same_elements_witness:
  "set (extract_concepts remdups awesome_cli_tool) = set (extract_concepts (rev \<circ> remdups) awesome_cli_tool)
   \<and> length (extract_concepts remdups awesome_cli_tool)
       = length (extract_concepts (rev \<circ> remdups) awesome_cli_tool)
   \<and> extract_concepts remdups awesome_cli_tool = [''awesome'', ''tool'', ''github'']"
  using concepts_same_elements [OF set_listing_remdups set_listing_rev_remdups, of awesome_cli_tool]
    awesome_concepts
  by simp

section \<open>The analysis does not read the date and the folder\<close>

lemma constructed_fields:
  assumes "constructed bm"
  shows "urlparse_netloc (url bm) = Inr (domain bm)" and "clean_name bm = Bookmark_clean_name (name bm)"
proof -
  from assms obtain h where h: "urlparse_netloc (url bm) = Inr h"
    by (cases "urlparse_netloc (url bm)") (simp_all add: constructed_def Bookmark_init_def)
  with assms have eq: "bm = \<lparr>name = name bm, url = url bm, date_added = date_added bm,
      folder_path = folder_path bm, domain = h, clean_name = Bookmark_clean_name (name bm)\<rparr>"
    by (simp add: constructed_def Bookmark_init_def)
  from eq have "domain bm = h"
    by (metis Bookmark.select_convs(5))
  with h show "urlparse_netloc (url bm) = Inr (domain bm)" by simp
  from eq show "clean_name bm = Bookmark_clean_name (name bm)"
    by (metis Bookmark.select_convs(6))
qed

lemma analyze_one_fields:
  assumes "name b1 = name b2" "url b1 = url b2" "domain b1 = domain b2" "clean_name b1 = clean_name b2"
  shows "analyze_one set_order b1 = analyze_one set_order b2"
  using assms
  by (simp add: analyze_one_def categorize_def categorize_in_def category_text_def
      extract_concepts_def calculate_buildability_def raw_buildability_def github_step_def
      easy_step_def hard_step_def score_text_def)

lemma analyze_one_metadata:
  assumes "constructed b1" "constructed b2" "name b1 = name b2" "url b1 = url b2"
  shows "analyze_one set_order b1 = analyze_one set_order b2"
proof -
  from constructed_fields(1) [OF assms(1)] constructed_fields(1) [OF assms(2)] assms(4)
  have "domain b1 = domain b2" by simp
  moreover from constructed_fields(2) [OF assms(1)] constructed_fields(2) [OF assms(2)] assms(3)
  have "clean_name b1 = clean_name b2" by simp
  ultimately show ?thesis using assms(3,4) by (rule_tac analyze_one_fields) simp_all
qed

text \<open>Two objects with the same URL are of the same kind.\<close>

lemma same_url_same_kind:
  assumes "built m1" "built m2" "made_url m1 = made_url m2"
  shows "has_other_url m1 = has_other_url m2"
proof (cases m1)
  case s1: (Str_url b1)
  show ?thesis
  proof (cases m2)
    case (Str_url b2)
    with s1 show ?thesis by simp
  next
    case (Other_url nm u d p)
    with s1 assms show ?thesis by (simp add: Bookmark_new_def split: json.splits if_splits sum.splits)
  qed
next
  case o1: (Other_url nm1 u1 d1 p1)
  show ?thesis
  proof (cases m2)
    case (Str_url b2)
    with o1 assms show ?thesis by (simp add: Bookmark_new_def split: json.splits if_splits sum.splits)
  next
    case (Other_url nm u d p)
    with o1 show ?thesis by simp
  qed
qed

lemma analyze_objects_kinds:
  assumes "list_all2 (\<lambda>m1 m2. built m1 \<and> built m2 \<and> made_name m1 = made_name m2
                        \<and> made_url m1 = made_url m2) ms1 ms2"
  shows "list_ex has_other_url ms1 = list_ex has_other_url ms2"
  using assms
proof (induction rule: list_all2_induct)
  case Nil
  show ?case by simp
next
  case (Cons m1 ms1 m2 ms2)
  from Cons.hyps(1) have "has_other_url m1 = has_other_url m2"
    by (simp add: same_url_same_kind)
  with Cons.IH show ?case by simp
qed

lemma analyze_objects_ideas:
  assumes "list_all2 (\<lambda>m1 m2. built m1 \<and> built m2 \<and> made_name m1 = made_name m2
                        \<and> made_url m1 = made_url m2) ms1 ms2"
    and "\<not> list_ex has_other_url ms1"
  shows "map (analyze_one set_order) (concat (map str_url_of ms1))
           = map (analyze_one set_order) (concat (map str_url_of ms2))"
  using assms
proof (induction rule: list_all2_induct)
  case Nil
  show ?case by simp
next
  case (Cons m1 ms1 m2 ms2)
  from Cons.prems have n1: "\<not> has_other_url m1" and nr: "\<not> list_ex has_other_url ms1"
    by simp_all
  from Cons.hyps(1) have k: "has_other_url m1 = has_other_url m2"
    by (simp add: same_url_same_kind)
  from n1 obtain b1 where b1: "m1 = Str_url b1" by (cases m1) simp_all
  from n1 k obtain b2 where b2: "m2 = Str_url b2" by (cases m2) simp_all
  from Cons.hyps(1) b1 b2 have "analyze_one set_order b1 = analyze_one set_order b2"
    by (simp add: analyze_one_metadata)
  with Cons.IH [OF nr] b1 b2 show ?case by simp
qed

text \<open>
  C10. For every two sequences of bookmarks, built by the constructor, that agree
  position by position on name and URL, whatever their dates and folder paths, and for
  the same run (the same set listing) and the same filter flag, \<open>analyze\<close> ends the same
  way: it returns the same ideas, with the same title, URL, category, concepts, score,
  feasibility, reasoning and source name, in the same order, or it raises the same
  exception on both.
\<close>

theorem analysis_ignores_metadata:
  assumes "list_all2 (\<lambda>b1 b2. built b1 \<and> built b2 \<and> made_name b1 = made_name b2
                        \<and> made_url b1 = made_url b2) bookmarks1 bookmarks2"
  shows "analyze_objects set_order bookmarks1 buildable_only
       = analyze_objects set_order bookmarks2 buildable_only"
proof (cases "list_ex has_other_url bookmarks1")
  case True
  with analyze_objects_kinds [OF assms] show ?thesis by (simp add: analyze_objects_def)
next
  case False
  with analyze_objects_kinds [OF assms] analyze_objects_ideas [OF assms False, of set_order]
  show ?thesis by (simp add: analyze_objects_def analyze_def)
qed

lemma docs_built:
  "built (Str_url docs_mirror)" "built (Str_url docs_mirror_moved)"
  "built (Str_url local_router)" "built (Str_url local_router_moved)"
  by code_simp+

lemma docs_same:
  "made_name (Str_url docs_mirror) = made_name (Str_url docs_mirror_moved)"
  "made_url (Str_url docs_mirror) = made_url (Str_url docs_mirror_moved)"
  "made_name (Str_url local_router) = made_name (Str_url local_router_moved)"
  "made_url (Str_url local_router) = made_url (Str_url local_router_moved)"
  by (simp_all add: docs_mirror_def docs_mirror_moved_def local_router_def local_router_moved_def)

lemma docs_differ:
  "date_added docs_mirror \<noteq> date_added docs_mirror_moved"
  "folder_path docs_mirror \<noteq> folder_path docs_mirror_moved"
  "date_added local_router \<noteq> date_added local_router_moved"
  "folder_path local_router \<noteq> folder_path local_router_moved"
  by (simp_all add: docs_mirror_def docs_mirror_moved_def local_router_def local_router_moved_def)

lemma docs_ideas:
  "analyze_objects remdups [Str_url docs_mirror, Str_url local_router] False
     = Inr (analyze remdups [docs_mirror, local_router] False)"
  "analyze_objects remdups [Str_url docs_mirror_moved, Str_url local_router_moved] False
     = Inr (analyze remdups [docs_mirror_moved, local_router_moved] False)"
  by (simp_all add: analyze_objects_def)

text \<open>
  The theorem at two lists of two bookmarks, one of them with an IPv6 host, that differ
  in every date and folder.
\<close>

theorem analysis_ignores_metadata_witness:
  "date_added docs_mirror \<noteq> date_added docs_mirror_moved
   \<and> folder_path docs_mirror \<noteq> folder_path docs_mirror_moved
   \<and> date_added local_router \<noteq> date_added local_router_moved
   \<and> folder_path local_router \<noteq> folder_path local_router_moved
   \<and> analyze remdups [docs_mirror, local_router] False
       = analyze remdups [docs_mirror_moved, local_router_moved] False"
  using analysis_ignores_metadata
      [of "[Str_url docs_mirror, Str_url local_router]"
          "[Str_url docs_mirror_moved, Str_url local_router_moved]" remdups False]
    docs_built docs_same docs_differ
  unfolding docs_ideas
  by simp

end
